theory Spec2Isabelle
  imports Main "HOL-Library.Sublist" "HOL-Library.Multiset"
begin

section \<open>The Amazon reviews downloader (download\_amazon\_reviews.py)\<close>

text \<open>
  The script is orchestration around three external capabilities: the dataset hub
  (\<^verbatim>\<open>load_dataset\<close>, \<^verbatim>\<open>save_to_disk\<close>), the file system (\<^verbatim>\<open>pathlib\<close>, \<^verbatim>\<open>shutil\<close>) and
  \<^verbatim>\<open>tarfile\<close>. The embedding threads one explicit world state (file system, the
  library's cache setting, the log of hub requests, the console) through every function;
  an exception is the left summand of the result, paired with the world as the raise left
  it. What the outside world decides (how a path string resolves, what the hub answers,
  whether a write fails) is a parameter of type \<open>env\<close>.
\<close>

subsection \<open>Paths (pathlib, POSIX flavour)\<close>

text \<open>
  A resolved \<^verbatim>\<open>Path\<close> is the list of its components below the root; \<open>[]\<close> is the
  root itself, whose \<^verbatim>\<open>name\<close> is empty.
\<close>

type_synonym path = "string list"

fun split_sep :: "char \<Rightarrow> string \<Rightarrow> string list" where
  "split_sep c [] = [[]]"
| "split_sep c (x # xs) =
     (if x = c then [] # split_sep c xs
      else (case split_sep c xs of [] \<Rightarrow> [[x]] | w # ws \<Rightarrow> (x # w) # ws))"

text \<open>Parsing a path string drops empty components and \<^verbatim>\<open>.\<close>, and keeps \<^verbatim>\<open>..\<close>.\<close>

definition parse_parts :: "string \<Rightarrow> path" where
  "parse_parts s = filter (\<lambda>w. w \<noteq> [] \<and> w \<noteq> ''.'') (split_sep (CHR ''/'') s)"

text \<open>\<^verbatim>\<open>p / s\<close>: an absolute right operand replaces the left one.\<close>

definition joinpath :: "path \<Rightarrow> string \<Rightarrow> path" where
  "joinpath p s = (if s \<noteq> [] \<and> hd s = CHR ''/'' then parse_parts s else p @ parse_parts s)"

definition name_of :: "path \<Rightarrow> string" where
  "name_of p = (if p = [] then [] else last p)"

text \<open>\<^verbatim>\<open>str.rfind\<close>: the last index of the character, \<open>None\<close> for Python's \<open>-1\<close>.\<close>

fun rfind :: "char \<Rightarrow> string \<Rightarrow> nat option" where
  "rfind c [] = None"
| "rfind c (x # xs) =
     (case rfind c xs of
        Some i \<Rightarrow> Some (Suc i)
      | None \<Rightarrow> (if x = c then Some 0 else None))"

text \<open>
  \<^verbatim>\<open>PurePath.suffix\<close>: \<^verbatim>\<open>i = name.rfind('.')\<close>, and \<^verbatim>\<open>name[i:]\<close> if
  \<^verbatim>\<open>0 < i < len(name) - 1\<close>, else the empty string.
\<close>

definition suffix_of :: "string \<Rightarrow> string" where
  "suffix_of name =
     (case rfind (CHR ''.'') name of
        None \<Rightarrow> []
      | Some i \<Rightarrow> (if 0 < i \<and> Suc i < length name then drop i name else []))"

text \<open>
  The exceptions of the program and of the library calls it makes. The structured
  constructors stand for the message the code formats:
  \<open>ValueError_level l\<close> for \<^verbatim>\<open>Compression level must be between 1 and 9, got {l}\<close>,
  \<open>ValueError_categories S\<close> for \<^verbatim>\<open>Invalid categories: {S}\<close> (a Python set),
  \<open>ValueError_format f\<close> for \<^verbatim>\<open>Unsupported compression format: {f}\<close>,
  \<open>ValueError_overlap\<close> for the message that the output path and the cache must be
  separate and non-overlapping. \<open>External m\<close> is an exception with message \<open>m\<close> raised
  inside the datasets library. All of them are subclasses of \<^verbatim>\<open>Exception\<close>.
\<close>

datatype exn =
    ValueError_level int
  | ValueError_categories "string set"
  | ValueError_format string
  | ValueError_overlap
  | ValueError_path string
  | TypeError string
  | CompressionError string
  | OSError path
  | External string

text \<open>
  \<^verbatim>\<open>PurePath.with_suffix\<close>: rejects a suffix holding a separator, a non-empty suffix not
  starting with a dot, the suffix \<^verbatim>\<open>.\<close>, and a path with an empty name; otherwise the
  name's own suffix, if it has one, is cut off and the new one appended.
\<close>

definition replace_suffix :: "string \<Rightarrow> string \<Rightarrow> string" where
  "replace_suffix name sfx =
     (let old_suffix = suffix_of name
      in if old_suffix = [] then name @ sfx
         else take (length name - length old_suffix) name @ sfx)"

definition with_suffix :: "path \<Rightarrow> string \<Rightarrow> exn + path" where
  "with_suffix p sfx =
     (if CHR ''/'' \<in> set sfx then Inl (ValueError_path ''Invalid suffix'')
      else if (sfx \<noteq> [] \<and> hd sfx \<noteq> CHR ''.'') \<or> sfx = ''.''
        then Inl (ValueError_path ''Invalid suffix'')
      else let name = name_of p in
        if name = [] then Inl (ValueError_path ''empty name'')
        else Inr (butlast p @ [replace_suffix name sfx]))"

text \<open>\<^verbatim>\<open>PurePath.parents\<close>: the proper ancestors, nearest first.\<close>

definition parents :: "path \<Rightarrow> path list" where
  "parents p = rev (butlast (prefixes p))"

subsection \<open>The world\<close>

text \<open>
  A file system maps a path to what is there. A dataset on disk is a set of named files;
  a complete tar archive records its codec, its compression level, the name of its
  root entry and the tree stored under it (relative path to node, \<open>[]\<close> the root entry
  itself). \<open>Truncated\<close> is a file that was opened for writing and closed without a
  complete archive in it.
\<close>

datatype node =
    Dir
  | DataFile string
  | TarArchive string int string "path \<Rightarrow> node option"
  | Truncated

type_synonym filesystem = "path \<Rightarrow> node option"

type_synonym dataset = "(string \<times> string) list"

text \<open>
  The lines written to the console and the spinner, one constructor per format string
  of the source. \<open>Status\<close> is what \<^verbatim>\<open>process_dataset\<close> returns:
  \<^verbatim>\<open>[SKIP] {folder} already exists\<close>, \<^verbatim>\<open>[DONE] {folder} downloaded\<close> and
  \<^verbatim>\<open>[DONE] {folder} downloaded and compressed with {FORMAT} level {level}\<close>.
\<close>

datatype status =
    SKIP string
  | DONE string
  | DONE_compressed string string int

datatype out =
    Info_cache_directory string
  | Note_custom_cache
  | Info_deleting_cache string
  | Success_cache_deleted
  | Warning_cache_missing string
  | Info_default_cache path
  | Info_using_compression string int
  | Info_compression_at_level string int
  | Info_compression_speed string
  | Info_compression_ratio string
  | Spinner_start string
  | Spinner_write status
  | Spinner_ok
  | Spinner_fail
  | Spinner_failed_category string exn
  | Download_summary
  | Summary_successful nat nat
  | Summary_failed nat nat
  | Summary_failed_item string exn

record world =
  fs :: filesystem
  HF_DATASETS_CACHE :: string
  fetched :: "string list"
  console :: "out list"

text \<open>
  The environment: \<open>resolve\<close> is \<^verbatim>\<open>Path(s).resolve()\<close> (it depends on the working
  directory), \<open>expand_tilde\<close> is what \<^verbatim>\<open>expanduser\<close> makes of a path whose first
  component starts with a tilde (it depends on the users' home directories), \<open>home\<close> is \<^verbatim>\<open>Path.home()\<close>, \<open>hub\<close> what \<^verbatim>\<open>load_dataset\<close> answers for a
  configuration name (a dataset or an exception) and \<open>save_error\<close> whether
  \<^verbatim>\<open>save_to_disk\<close> into a folder fails.
\<close>

record env =
  resolve :: "string \<Rightarrow> path"
  expand_tilde :: "string \<Rightarrow> string"
  home :: string
  hub :: "string \<Rightarrow> exn + dataset"
  save_error :: "path \<Rightarrow> exn option"

text \<open>
  \<^verbatim>\<open>Path(s).expanduser()\<close> touches only a relative path whose first component starts
  with \<^verbatim>\<open>~\<close>.
\<close>

definition expanduser :: "env \<Rightarrow> string \<Rightarrow> string" where
  "expanduser e s =
     (case parse_parts s of
        [] \<Rightarrow> s
      | w # ws \<Rightarrow> (if hd s \<noteq> CHR ''/'' \<and> hd w = CHR ''~'' then expand_tilde e s else s))"

definition emit :: "out \<Rightarrow> world \<Rightarrow> world" where
  "emit line s = s\<lparr>console := console s @ [line]\<rparr>"

definition path_exists :: "filesystem \<Rightarrow> path \<Rightarrow> bool" where
  "path_exists f p = (f p \<noteq> None)"

text \<open>The root always is a directory.\<close>

definition is_dir :: "filesystem \<Rightarrow> path \<Rightarrow> bool" where
  "is_dir f p = (p = [] \<or> f p = Some Dir)"

definition is_file :: "filesystem \<Rightarrow> path \<Rightarrow> bool" where
  "is_file f p = (p \<noteq> [] \<and> f p \<noteq> None \<and> f p \<noteq> Some Dir)"

text \<open>Removing a tree removes every path at or below its root.\<close>

definition remove_tree :: "path \<Rightarrow> filesystem \<Rightarrow> filesystem" where
  "remove_tree p f = (\<lambda>q. if prefix p q then None else f q)"

text \<open>
  \<^verbatim>\<open>shutil.rmtree(p)\<close> raises when \<open>p\<close> is missing or is not a directory;
  with \<^verbatim>\<open>ignore_errors=True\<close> it then leaves the file system as it is.
\<close>

definition rmtree :: "path \<Rightarrow> filesystem \<Rightarrow> exn + filesystem" where
  "rmtree p f = (if f p = Some Dir then Inr (remove_tree p f) else Inl (OSError p))"

definition rmtree_ignore_errors :: "path \<Rightarrow> filesystem \<Rightarrow> filesystem" where
  "rmtree_ignore_errors p f = (case rmtree p f of Inl e \<Rightarrow> f | Inr f' \<Rightarrow> f')"

text \<open>
  \<^verbatim>\<open>Path.mkdir(parents=True, exist_ok=True)\<close>: fails when the path or one of its
  ancestors is a file, and otherwise makes every missing directory on the way.
\<close>

definition mkdir_parents :: "path \<Rightarrow> filesystem \<Rightarrow> exn + filesystem" where
  "mkdir_parents p f =
     (case find (is_file f) (prefixes p) of
        Some q \<Rightarrow> Inl (OSError q)
      | None \<Rightarrow> Inr (\<lambda>q. if q \<noteq> [] \<and> prefix q p then Some Dir else f q))"

subsection \<open>The datasets library\<close>

text \<open>
  \<^verbatim>\<open>load_dataset\<close> contacts the hub for a configuration of the one repository the
  script reads: the request is logged, the transient data lands below the configured
  cache directory, and the hub's answer (or its exception) is the result.
\<close>

definition load_dataset :: "env \<Rightarrow> string \<Rightarrow> world \<Rightarrow> (exn + dataset) \<times> world" where
  "load_dataset e name s =
     (let cache = resolve e (HF_DATASETS_CACHE s)
      in (hub e name,
          s\<lparr>fetched := fetched s @ [name],
            fs := (fs s)(cache \<mapsto> Dir, cache @ [name] \<mapsto> DataFile ''cache'')\<rparr>))"

definition write_files :: "path \<Rightarrow> dataset \<Rightarrow> filesystem \<Rightarrow> filesystem" where
  "write_files p ds f = fold (\<lambda>(n, c) g. g(p @ [n] \<mapsto> DataFile c)) ds f"

definition save_to_disk :: "env \<Rightarrow> dataset \<Rightarrow> path \<Rightarrow> world \<Rightarrow> (exn + unit) \<times> world" where
  "save_to_disk e ds p s =
     (case save_error e p of
        Some x \<Rightarrow> (Inl x, s)
      | None \<Rightarrow> (Inr (), s\<lparr>fs := write_files p ds (fs s)\<rparr>))"

subsection \<open>tarfile\<close>

text \<open>
  \<^verbatim>\<open>tarfile.open(name, "w:" + comptype, compresslevel=level)\<close> as the standard
  library does it. An empty \<open>comptype\<close> means \<^verbatim>\<open>tar\<close>; one outside \<^verbatim>\<open>OPEN_METH\<close> is a
  \<^verbatim>\<open>CompressionError\<close>.
  \<^item> \<^verbatim>\<open>gzopen\<close> has a \<^verbatim>\<open>compresslevel\<close> parameter and opens the file for writing.
  \<^item> \<^verbatim>\<open>bz2open\<close> hands \<^verbatim>\<open>compresslevel\<close> to \<^verbatim>\<open>BZ2File\<close>, whose first statement
    tests \<^verbatim>\<open>1 <= compresslevel <= 9\<close>: with \<^verbatim>\<open>None\<close> the comparison raises
    \<^verbatim>\<open>TypeError\<close> before any file is opened.
  \<^item> \<^verbatim>\<open>xzopen\<close> has no \<^verbatim>\<open>compresslevel\<close> parameter: it opens \<^verbatim>\<open>LZMAFile\<close> for
    writing (the file is created), then passes the keyword on to \<^verbatim>\<open>TarFile.__init__\<close>,
    which does not take it; the \<^verbatim>\<open>TypeError\<close> is re-raised after the file is closed.
  \<^item> \<^verbatim>\<open>taropen\<close> passes the keyword to \<^verbatim>\<open>TarFile.__init__\<close> too, before any file is
    opened.
  The first component of the result is the exception, or the level the archive is
  written with.
\<close>

definition open_for_writing :: "path \<Rightarrow> filesystem \<Rightarrow> exn + filesystem" where
  "open_for_writing p f =
     (if p = [] \<or> f p = Some Dir \<or> \<not> is_dir f (butlast p) then Inl (OSError p)
      else Inr (f(p \<mapsto> Truncated)))"

definition tarfile_open ::
  "path \<Rightarrow> string \<Rightarrow> int option \<Rightarrow> filesystem \<Rightarrow> (exn + int) \<times> filesystem" where
  "tarfile_open archive_path comptype compresslevel f =
     (if comptype = ''gz'' then
        (case compresslevel of
           None \<Rightarrow> (Inl (TypeError ''compresslevel''), f)
         | Some l \<Rightarrow>
             (case open_for_writing archive_path f of
                Inl x \<Rightarrow> (Inl x, f)
              | Inr f' \<Rightarrow> (Inr l, f')))
      else if comptype = ''bz2'' then
        (case compresslevel of
           None \<Rightarrow> (Inl (TypeError ''compresslevel''), f)
         | Some l \<Rightarrow>
             (case open_for_writing archive_path f of
                Inl x \<Rightarrow> (Inl x, f)
              | Inr f' \<Rightarrow> (Inr l, f')))
      else if comptype = ''xz'' then
        (case open_for_writing archive_path f of
           Inl x \<Rightarrow> (Inl x, f)
         | Inr f' \<Rightarrow> (Inl (TypeError ''compresslevel''), f'))
      else if comptype = [] \<or> comptype = ''tar'' then (Inl (TypeError ''compresslevel''), f)
      else (Inl (CompressionError comptype), f))"

text \<open>
  \<^verbatim>\<open>tar.add(folder, arcname=...)\<close> followed by the close at the end of the
  \<^verbatim>\<open>with\<close> block: a missing source raises and leaves the file as the open made it;
  otherwise the archive holds the tree found at the source.
\<close>

definition tar_add_close ::
  "path \<Rightarrow> string \<Rightarrow> int \<Rightarrow> path \<Rightarrow> string \<Rightarrow> filesystem \<Rightarrow> exn + filesystem" where
  "tar_add_close archive_path comptype l folder arcname f =
     (if f folder = None then Inl (OSError folder)
      else Inr (f(archive_path \<mapsto> TarArchive comptype l arcname (\<lambda>rel. f (folder @ rel)))))"

subsection \<open>The script\<close>

definition get_cache_directory :: "bool \<Rightarrow> world \<Rightarrow> string \<times> world" where
  "get_cache_directory verbose s =
     (let cache_dir = HF_DATASETS_CACHE s
      in (cache_dir,
          if verbose then emit Note_custom_cache (emit (Info_cache_directory cache_dir) s)
          else s))"

definition delete_cache_directory :: "env \<Rightarrow> world \<Rightarrow> world" where
  "delete_cache_directory e s =
     (let cache_path = resolve e (HF_DATASETS_CACHE s);
          s1 = emit (Info_deleting_cache (HF_DATASETS_CACHE s)) s
      in if path_exists (fs s1) cache_path
         then emit Success_cache_deleted (s1\<lparr>fs := rmtree_ignore_errors cache_path (fs s1)\<rparr>)
         else emit (Warning_cache_missing (HF_DATASETS_CACHE s)) s1)"

definition default_cache_path :: "env \<Rightarrow> world \<Rightarrow> path \<times> world" where
  "default_cache_path e s =
     (let default_path = parse_parts (home e) @ [''.cache'', ''huggingface'', ''datasets'']
      in (default_path, emit (Info_default_cache default_path) s))"

definition VALID_CATEGORIES :: "string list" where
  "VALID_CATEGORIES =
     [''All_Beauty'', ''Amazon_Fashion'', ''Appliances'', ''Arts_Crafts_and_Sewing'', ''Automotive'',
      ''Baby_Products'', ''Beauty_and_Personal_Care'', ''Books'', ''CDs_and_Vinyl'',
      ''Cell_Phones_and_Accessories'', ''Clothing_Shoes_and_Jewelry'', ''Digital_Music'',
      ''Electronics'', ''Gift_Cards'', ''Grocery_and_Gourmet_Food'', ''Handmade_Products'',
      ''Health_and_Household'', ''Health_and_Personal_Care'', ''Home_and_Kitchen'',
      ''Industrial_and_Scientific'', ''Kindle_Store'', ''Magazine_Subscriptions'', ''Movies_and_TV'',
      ''Musical_Instruments'', ''Office_Products'', ''Patio_Lawn_and_Garden'', ''Pet_Supplies'',
      ''Software'', ''Sports_and_Outdoors'', ''Subscription_Boxes'', ''Tools_and_Home_Improvement'',
      ''Toys_and_Games'', ''Video_Games'', ''Unknown'']"

definition archive_ext :: "string \<Rightarrow> string" where
  "archive_ext compression_format =
     (if compression_format = ''gz'' then ''.tar.gz''
      else if compression_format = ''bz2'' then ''.tar.bz2''
      else ''.tar.xz'')"

definition compress_folder :: "path \<Rightarrow> string \<Rightarrow> int \<Rightarrow> world \<Rightarrow> (exn + path) \<times> world" where
  "compress_folder folder compression_format level s =
     (if \<not> (1 \<le> level \<and> level \<le> 9) then (Inl (ValueError_level level), s)
      else let ext = archive_ext compression_format in
        case with_suffix folder ext of
          Inl x \<Rightarrow> (Inl x, s)
        | Inr archive_path \<Rightarrow>
            (case tarfile_open archive_path compression_format
                    (if compression_format = ''gz'' then Some level else None) (fs s) of
               (Inl x, f1) \<Rightarrow> (Inl x, s\<lparr>fs := f1\<rparr>)
             | (Inr l, f1) \<Rightarrow>
                 (case tar_add_close archive_path compression_format l folder (name_of folder) f1 of
                    Inl x \<Rightarrow> (Inl x, s\<lparr>fs := f1\<rparr>)
                  | Inr f2 \<Rightarrow>
                      (let s2 = emit (Info_using_compression compression_format level)
                                  (s\<lparr>fs := f2\<rparr>)
                       in case rmtree folder (fs s2) of
                            Inl x \<Rightarrow> (Inl x, s2)
                          | Inr f3 \<Rightarrow> (Inr archive_path, s2\<lparr>fs := f3\<rparr>)))))"

text \<open>A list comprehension over a call that may raise stops at the first raise.\<close>

fun collect :: "('a \<Rightarrow> exn + 'b) \<Rightarrow> 'a list \<Rightarrow> exn + 'b list" where
  "collect g [] = Inr []"
| "collect g (x # xs) =
     (case g x of
        Inl err \<Rightarrow> Inl err
      | Inr y \<Rightarrow> (case collect g xs of Inl err \<Rightarrow> Inl err | Inr ys \<Rightarrow> Inr (y # ys)))"

definition archive_exts :: "string list" where
  "archive_exts = [''.tar.gz'', ''.tar.bz2'', ''.tar.xz'']"

definition folder_name_of :: "string \<Rightarrow> string \<Rightarrow> string" where
  "folder_name_of dataset_type category = ''raw_'' @ dataset_type @ ''_'' @ category"

definition process_dataset ::
  "env \<Rightarrow> string \<Rightarrow> string \<Rightarrow> path \<Rightarrow> bool \<Rightarrow> string \<Rightarrow> int \<Rightarrow> world
     \<Rightarrow> (exn + status) \<times> world" where
  "process_dataset e dataset_type category base_save_path compress compression_format
       compression_level s =
     (let folder_name = folder_name_of dataset_type category;
          dataset_path = joinpath base_save_path folder_name
      in case collect (with_suffix dataset_path) archive_exts of
           Inl x \<Rightarrow> (Inl x, s)
         | Inr compressed_paths \<Rightarrow>
             if path_exists (fs s) dataset_path
                \<or> (\<exists>p \<in> set compressed_paths. path_exists (fs s) p)
             then (Inr (SKIP folder_name), s)
             else
               (case load_dataset e (folder_name_of dataset_type category) s of
                  (Inl x, s1) \<Rightarrow> (Inl x, s1)
                | (Inr dataset, s1) \<Rightarrow>
                    (case mkdir_parents dataset_path (fs s1) of
                       Inl x \<Rightarrow> (Inl x, s1)
                     | Inr f2 \<Rightarrow>
                         (case save_to_disk e dataset dataset_path (s1\<lparr>fs := f2\<rparr>) of
                            (Inl x, s3) \<Rightarrow> (Inl x, s3)
                          | (Inr u, s3) \<Rightarrow>
                              if compress then
                                (case compress_folder dataset_path compression_format
                                        compression_level s3 of
                                   (Inl x, s4) \<Rightarrow> (Inl x, s4)
                                 | (Inr archive_path, s4) \<Rightarrow>
                                     (Inr (DONE_compressed folder_name compression_format
                                             compression_level), s4))
                              else (Inr (DONE folder_name), s3)))))"

text \<open>
  One turn of the loop over the categories. The two result lists travel with the world;
  an entry of \<open>failed\<close> holds the exception itself where the source stores its message
  \<^verbatim>\<open>str(e)\<close>. \<open>try_category\<close> is the \<^verbatim>\<open>try\<close> block with its \<^verbatim>\<open>except Exception\<close>
  handler, \<open>purge_cache\<close> the \<^verbatim>\<open>finally\<close> block.
\<close>

type_synonym progress = "world \<times> string list \<times> (string \<times> exn) list"

definition record_failure :: "string \<Rightarrow> exn \<Rightarrow> world \<Rightarrow> string list \<Rightarrow> (string \<times> exn) list \<Rightarrow> progress" where
  "record_failure category x s successful failed =
     (emit (Spinner_failed_category category x) (emit Spinner_fail s),
      successful, failed @ [(category, x)])"

definition try_category ::
  "env \<Rightarrow> path \<Rightarrow> bool \<Rightarrow> string \<Rightarrow> int \<Rightarrow> string \<Rightarrow> progress \<Rightarrow> progress" where
  "try_category e base_save_path compress compression_format compression_level category st =
     (case st of (s, successful, failed) \<Rightarrow>
        (case process_dataset e ''review'' category base_save_path compress compression_format
                compression_level (emit (Spinner_start category) s) of
           (Inl x, s1) \<Rightarrow> record_failure category x s1 successful failed
         | (Inr review_result, s1) \<Rightarrow>
             (case process_dataset e ''meta'' category base_save_path compress
                     compression_format compression_level
                     (emit (Spinner_write review_result) s1) of
                (Inl x, s2) \<Rightarrow> record_failure category x s2 successful failed
              | (Inr meta_result, s2) \<Rightarrow>
                  (emit Spinner_ok (emit (Spinner_write meta_result) s2),
                   successful @ [category], failed))))"

definition purge_cache :: "path \<Rightarrow> world \<Rightarrow> world" where
  "purge_cache cache_path s =
     (if path_exists (fs s) cache_path
      then s\<lparr>fs := rmtree_ignore_errors cache_path (fs s)\<rparr>
      else s)"

definition process_category ::
  "env \<Rightarrow> path \<Rightarrow> path \<Rightarrow> bool \<Rightarrow> string \<Rightarrow> int \<Rightarrow> string \<Rightarrow> progress \<Rightarrow> progress" where
  "process_category e base_save_path cache_path compress compression_format compression_level
       category st =
     (case try_category e base_save_path compress compression_format compression_level
             category st of
        (s, successful, failed) \<Rightarrow> (purge_cache cache_path s, successful, failed))"

definition run_categories ::
  "env \<Rightarrow> path \<Rightarrow> path \<Rightarrow> bool \<Rightarrow> string \<Rightarrow> int \<Rightarrow> string list \<Rightarrow> progress \<Rightarrow> progress" where
  "run_categories e base_save_path cache_path compress compression_format compression_level
       categories st =
     fold (process_category e base_save_path cache_path compress compression_format
             compression_level) categories st"

definition speed_word :: "int \<Rightarrow> string" where
  "speed_word l = (if l < 4 then ''Fast'' else if l < 7 then ''Medium'' else ''Slow'')"

definition ratio_word :: "int \<Rightarrow> string" where
  "ratio_word l = (if l < 4 then ''Low'' else if l < 7 then ''Medium'' else ''High'')"

definition print_summary :: "string list \<Rightarrow> string list \<Rightarrow> (string \<times> exn) list \<Rightarrow> world \<Rightarrow> world" where
  "print_summary categories successful failed s =
     (let s1 = emit (Summary_successful (length successful) (length categories))
                 (emit Download_summary s)
      in if failed \<noteq> []
         then fold (\<lambda>(category, x). emit (Summary_failed_item category x)) failed
                (emit (Summary_failed (length failed) (length categories)) s1)
         else s1)"

text \<open>The three lines printed before the loop when compression is on.\<close>

definition compression_banner :: "bool \<Rightarrow> string \<Rightarrow> int \<Rightarrow> world \<Rightarrow> world" where
  "compression_banner compress compression_format compression_level s =
     (if compress
      then emit (Info_compression_ratio (ratio_word compression_level))
            (emit (Info_compression_speed (speed_word compression_level))
              (emit (Info_compression_at_level compression_format compression_level) s))
      else s)"

text \<open>\<^verbatim>\<open>categories\<close> after the default is filled in.\<close>

definition requested :: "string list option \<Rightarrow> string list" where
  "requested categories_arg =
     (case categories_arg of None \<Rightarrow> VALID_CATEGORIES | Some cs \<Rightarrow> cs)"

definition download_all_amazon_reviews ::
  "env \<Rightarrow> string \<Rightarrow> string list option \<Rightarrow> bool \<Rightarrow> string \<Rightarrow> int \<Rightarrow> world
     \<Rightarrow> (exn + unit) \<times> world" where
  "download_all_amazon_reviews e base_save_path categories_arg compress compression_format
       compression_level s =
     (let s0 = s\<lparr>HF_DATASETS_CACHE := ''E:/hf_cache''\<rparr>;
          categories = requested categories_arg;
          invalid = (case categories_arg of
                       None \<Rightarrow> {}
                     | Some cs \<Rightarrow> set cs - set VALID_CATEGORIES)
      in if invalid \<noteq> {} then (Inl (ValueError_categories invalid), s0)
         else if \<not> (1 \<le> compression_level \<and> compression_level \<le> 9)
           then (Inl (ValueError_level compression_level), s0)
         else if compression_format \<notin> set [''gz'', ''bz2'', ''xz'']
           then (Inl (ValueError_format compression_format), s0)
         else
           (case get_cache_directory False s0 of (hf_datasets_cache, s1) \<Rightarrow>
              (let base = resolve e base_save_path;
                   cache_path = resolve e (expanduser e hf_datasets_cache)
               in if base = cache_path \<or> base \<in> set (parents cache_path)
                     \<or> cache_path \<in> set (parents base)
                  then (Inl ValueError_overlap, s1)
                  else
                    (case mkdir_parents base (fs s1) of
                       Inl x \<Rightarrow> (Inl x, s1)
                     | Inr f2 \<Rightarrow>
                         (case run_categories e base cache_path compress compression_format
                                 compression_level categories
                                 (compression_banner compress compression_format
                                    compression_level (s1\<lparr>fs := f2\<rparr>), [], []) of
                            (s4, successful, failed) \<Rightarrow>
                              (Inr (), print_summary categories successful failed s4))))))"

text \<open>
  The requested categories pass the registry check of the orchestrator: there is no
  list, or the set difference \<^verbatim>\<open>set(categories) - set(VALID_CATEGORIES)\<close> is empty.
\<close>

definition categories_valid :: "string list option \<Rightarrow> bool" where
  "categories_valid categories_arg =
     (case categories_arg of None \<Rightarrow> True | Some cs \<Rightarrow> set cs - set VALID_CATEGORIES = {})"

subsection \<open>A test scenario\<close>

text \<open>
  A small concrete world for running the definitions: the working directory is
  \<^verbatim>\<open>/work\<close>, the hub has every configuration except the reviews of \<^verbatim>\<open>Software\<close>,
  and writing the metadata of \<^verbatim>\<open>Gift_Cards\<close> to disk fails.
\<close>

definition test_env :: env where
  "test_env =
     \<lparr>resolve = joinpath [''work''],
      expand_tilde = (\<lambda>s. ''/home/user'' @ drop 1 s),
      home = ''/home/user'',
      hub = (\<lambda>name. if name = ''raw_review_Software'' then Inl (External ''connection reset'')
                     else Inr [(''data.arrow'', name)]),
      save_error = (\<lambda>p. if p = [''out'', ''raw_meta_Gift_Cards'']
                          then Some (OSError p) else None)\<rparr>"

definition test_disk :: filesystem where
  "test_disk =
     [[''out''] \<mapsto> Dir,
      [''out'', ''raw_review_Books''] \<mapsto> Dir,
      [''out'', ''raw_review_Books'', ''data.arrow''] \<mapsto> DataFile ''rows'',
      [''out'', ''raw_meta_Books.tar.gz''] \<mapsto> Truncated,
      [''out'', ''raw_review_Gift_Cards''] \<mapsto> Dir]"

definition test_world :: world where
  "test_world =
     \<lparr>fs = test_disk, HF_DATASETS_CACHE = ''/var/cache/hf'', fetched = [], console = []\<rparr>"

text \<open>The test world once the orchestrator has overwritten the cache setting.\<close>

definition run_world :: world where
  "run_world = test_world\<lparr>HF_DATASETS_CACHE := ''E:/hf_cache''\<rparr>"

section \<open>Properties\<close>

subsection \<open>Paths\<close>

lemma split_sep_ne: "split_sep c s \<noteq> []"
  by (induction s) (auto split: list.splits)

lemma hd_split_sep: "hd (split_sep c s) = takeWhile (\<lambda>x. x \<noteq> c) s"
  by (induction s) (auto split: list.splits simp: split_sep_ne)

lemma parse_parts_no_empty: "[] \<notin> set (parse_parts s)"
  by (simp add: parse_parts_def)

lemma folder_name_first_part:
  "hd (split_sep (CHR ''/'') (folder_name_of t c)) \<noteq> [] \<and>
   hd (split_sep (CHR ''/'') (folder_name_of t c)) \<noteq> ''.''"
  unfolding hd_split_sep folder_name_of_def by simp

lemma parse_folder_name_ne: "parse_parts (folder_name_of t c) \<noteq> []"
proof -
  let ?xs = "split_sep (CHR ''/'') (folder_name_of t c)"
  have "hd ?xs \<in> set ?xs" using split_sep_ne by simp
  with folder_name_first_part[of t c] show ?thesis
    unfolding parse_parts_def by (auto simp: filter_empty_conv)
qed

lemma joinpath_folder_name:
  "joinpath base (folder_name_of t c) = base @ parse_parts (folder_name_of t c)"
  by (simp add: joinpath_def folder_name_of_def)

text \<open>The folder of a dataset always has a name, whatever the type and the category are.\<close>

lemma name_of_dataset_path: "name_of (joinpath base (folder_name_of t c)) \<noteq> []"
proof -
  let ?ps = "parse_parts (folder_name_of t c)"
  have ne: "?ps \<noteq> []" by (rule parse_folder_name_ne)
  then have "last ?ps \<in> set ?ps" by (rule last_in_set)
  then have "last ?ps \<noteq> []" using parse_parts_no_empty[of "folder_name_of t c"] by metis
  then show ?thesis using ne by (simp add: joinpath_folder_name name_of_def)
qed

lemma with_suffix_archive:
  "name_of p \<noteq> [] \<Longrightarrow> ext \<in> set archive_exts \<Longrightarrow>
   with_suffix p ext = Inr (butlast p @ [replace_suffix (name_of p) ext])"
  by (auto simp: with_suffix_def archive_exts_def)

lemma collect_with_suffix:
  "name_of p \<noteq> [] \<Longrightarrow>
   collect (with_suffix p) archive_exts =
     Inr (map (\<lambda>ext. butlast p @ [replace_suffix (name_of p) ext]) archive_exts)"
  using with_suffix_archive[of p] by (simp add: archive_exts_def)

lemma rfind_none: "rfind c s = None \<longleftrightarrow> c \<notin> set s"
  by (induction s) (auto split: option.splits)

text \<open>A name without a dot gets the extension appended.\<close>

lemma replace_suffix_plain: "CHR ''.'' \<notin> set name \<Longrightarrow> replace_suffix name ext = name @ ext"
  using rfind_none[of "CHR ''.''" name] by (simp add: replace_suffix_def suffix_of_def)

lemma rfind_some:
  "rfind c s = Some i \<Longrightarrow> i < length s \<and> c \<notin> set (drop (Suc i) s)"
proof (induction s arbitrary: i)
  case Nil
  then show ?case by simp
next
  case (Cons x xs)
  then show ?case
    by (auto split: option.splits if_splits simp: rfind_none)
qed

lemma archive_ext_in: "archive_ext compression_format \<in> set archive_exts"
  by (simp add: archive_ext_def archive_exts_def)

text \<open>
  Replacing the suffix by an archive extension changes the name: the old suffix holds
  one dot, each archive extension two.
\<close>

lemma replace_suffix_neq:
  assumes "ext \<in> set archive_exts"
  shows "replace_suffix name ext \<noteq> name"
proof (cases "suffix_of name = []")
  case True
  then show ?thesis using assms by (auto simp: replace_suffix_def archive_exts_def)
next
  case False
  then obtain i where i: "rfind (CHR ''.'') name = Some i" "suffix_of name = drop i name"
    by (auto simp: suffix_of_def split: option.splits if_splits)
  from rfind_some[OF i(1)] have b: "i < length name" "CHR ''.'' \<notin> set (drop (Suc i) name)"
    by simp_all
  have rs: "replace_suffix name ext = take i name @ ext"
    using False i b by (simp add: replace_suffix_def)
  show ?thesis
  proof
    assume "replace_suffix name ext = name"
    then have "take i name @ ext = name" using rs by simp
    then have "take i name @ ext = take i name @ drop i name"
      by (simp only: append_take_drop_id)
    then have "ext = drop i name" by (simp only: same_append_eq)
    then have "tl ext = drop (Suc i) name" by (simp add: drop_Suc tl_drop)
    with b(2) have "CHR ''.'' \<notin> set (tl ext)" by simp
    with assms show False by (auto simp: archive_exts_def)
  qed
qed

text \<open>The archive is a sibling of the folder, never the folder nor below it.\<close>

lemma with_suffix_sibling:
  assumes "with_suffix folder ext = Inr archive_path" and "ext \<in> set archive_exts"
  shows "folder \<noteq> [] \<and> \<not> prefix folder archive_path \<and>
         archive_path = butlast folder @ [replace_suffix (name_of folder) ext]"
proof -
  from assms have ne: "folder \<noteq> []"
    and ap: "archive_path = butlast folder @ [replace_suffix (name_of folder) ext]"
    by (auto simp: with_suffix_def name_of_def Let_def split: if_splits)
  have fl: "folder = butlast folder @ [name_of folder]" using ne by (simp add: name_of_def)
  have "\<not> prefix folder archive_path"
  proof
    assume p: "prefix folder archive_path"
    have "length folder = length archive_path" using ap ne by simp
    with p have "folder = archive_path" by (auto simp: prefix_def)
    with fl ap have "name_of folder = replace_suffix (name_of folder) ext"
      by (metis append1_eq_conv)
    with replace_suffix_neq[OF assms(2)] show False by metis
  qed
  with ne ap show ?thesis by simp
qed

lemma set_butlast_distinct:
  "xs \<noteq> [] \<Longrightarrow> distinct xs \<Longrightarrow> set (butlast xs) = set xs - {last xs}"
  by (induction xs rule: rev_induct) auto

lemma in_parents: "q \<in> set (parents p) \<longleftrightarrow> strict_prefix q p"
proof -
  have ne: "prefixes p \<noteq> []" by (cases p) simp_all
  show ?thesis
    using set_butlast_distinct[OF ne distinct_prefixes]
    by (auto simp: parents_def strict_prefix_def)
qed

lemma expanduser_fixed_cache: "expanduser e ''E:/hf_cache'' = ''E:/hf_cache''"
  by (simp add: expanduser_def parse_parts_def)

subsection \<open>What the calls leave alone\<close>

lemma emit_frame [simp]:
  "fs (emit l s) = fs s" "HF_DATASETS_CACHE (emit l s) = HF_DATASETS_CACHE s"
  "fetched (emit l s) = fetched s" "console (emit l s) = console s @ [l]"
  by (simp_all add: emit_def)

lemma compress_folder_frame:
  "HF_DATASETS_CACHE (snd (compress_folder folder cf level s)) = HF_DATASETS_CACHE s \<and>
   fetched (snd (compress_folder folder cf level s)) = fetched s"
  by (simp add: compress_folder_def Let_def split: sum.splits prod.splits)

lemma save_to_disk_frame:
  "HF_DATASETS_CACHE (snd (save_to_disk e ds p s)) = HF_DATASETS_CACHE s \<and>
   fetched (snd (save_to_disk e ds p s)) = fetched s"
  by (simp add: save_to_disk_def split: option.splits)

lemma load_dataset_frame:
  "HF_DATASETS_CACHE (snd (load_dataset e n s)) = HF_DATASETS_CACHE s \<and>
   fetched (snd (load_dataset e n s)) = fetched s @ [n]"
  by (simp add: load_dataset_def Let_def)

text \<open>
  Processing one dataset leaves the cache setting alone and sends at most one request
  to the hub, for the configuration named like the folder.
\<close>

lemma process_dataset_frame:
  "HF_DATASETS_CACHE (snd (process_dataset e t c base compress cf level s)) = HF_DATASETS_CACHE s \<and>
   (fetched (snd (process_dataset e t c base compress cf level s)) = fetched s \<or>
    fetched (snd (process_dataset e t c base compress cf level s)) = fetched s @ [folder_name_of t c])"
proof -
  let ?n = "folder_name_of t c"
  let ?dp = "joinpath base ?n"
  obtain r1 s1 where l: "load_dataset e ?n s = (r1, s1)" by (cases "load_dataset e ?n s")
  have f1: "HF_DATASETS_CACHE s1 = HF_DATASETS_CACHE s" "fetched s1 = fetched s @ [?n]"
    using load_dataset_frame[of e ?n s] l by simp_all
  have sv: "HF_DATASETS_CACHE (snd (save_to_disk e ds ?dp (s1\<lparr>fs := f\<rparr>))) = HF_DATASETS_CACHE s
      \<and> fetched (snd (save_to_disk e ds ?dp (s1\<lparr>fs := f\<rparr>))) = fetched s @ [?n]" for ds f
    using save_to_disk_frame[of e ds ?dp "s1\<lparr>fs := f\<rparr>"] f1 by simp
  have cp: "HF_DATASETS_CACHE (snd (compress_folder ?dp cf level s3)) = HF_DATASETS_CACHE s3
      \<and> fetched (snd (compress_folder ?dp cf level s3)) = fetched s3" for s3
    by (rule compress_folder_frame)
  show ?thesis
    unfolding process_dataset_def Let_def l
    using f1 sv cp
    by (auto split: sum.splits prod.splits simp: l) (metis snd_conv)+
qed

subsection \<open>The archiver\<close>

lemma tarfile_open_no_level: "tarfile_open p comptype None f \<noteq> (Inr l, f')"
  by (auto simp: tarfile_open_def split: sum.splits)

text \<open>With any codec but gz the archiver raises, at every level.\<close>

lemma compress_folder_not_gz_raises:
  "compression_format \<noteq> ''gz'' \<Longrightarrow>
   \<exists>x s'. compress_folder folder compression_format level s = (Inl x, s')"
  by (auto simp: compress_folder_def Let_def tarfile_open_no_level split: sum.splits prod.splits)

text \<open>
  C2. The claim: for every level in 1..9 and the codecs bz2 and xz, \<open>compress_folder\<close>
  accepts the level and produces the archive. The code passes
  \<^verbatim>\<open>compresslevel=None\<close> to \<^verbatim>\<open>tarfile.open\<close> for these codecs, which raises
  \<^verbatim>\<open>TypeError\<close>: on an existing folder with level 6, bz2 raises and leaves the world as
  it was, xz raises and leaves an empty file at the archive path. Neither produces an
  archive, and the folder stays.
\<close>

theorem compress_folder_bz2_xz_raise:
  "compress_folder [''out'', ''raw_review_Books''] ''bz2'' 6 test_world
     = (Inl (TypeError ''compresslevel''), test_world) \<and>
   compress_folder [''out'', ''raw_review_Books''] ''xz'' 6 test_world
     = (Inl (TypeError ''compresslevel''),
        test_world\<lparr>fs := test_disk([''out'', ''raw_review_Books.tar.xz''] \<mapsto> Truncated)\<rparr>)"
  by (simp add: compress_folder_def archive_ext_def with_suffix_def name_of_def
        replace_suffix_def suffix_of_def tarfile_open_def open_for_writing_def is_dir_def
        test_world_def test_disk_def)

text \<open>What a successful call has done.\<close>

lemma compress_folder_success:
  assumes "compress_folder folder compression_format level s = (Inr archive_path, s')"
  shows "compression_format = ''gz'' \<and> 1 \<le> level \<and> level \<le> 9 \<and>
         archive_path = butlast folder @ [replace_suffix (name_of folder) ''.tar.gz''] \<and>
         fs s folder = Some Dir \<and>
         fs s' archive_path
           = Some (TarArchive ''gz'' level (name_of folder) (\<lambda>rel. fs s (folder @ rel))) \<and>
         (\<forall>q. prefix folder q \<longrightarrow> fs s' q = None) \<and>
         (\<forall>q. \<not> prefix folder q \<and> q \<noteq> archive_path \<longrightarrow> fs s' q = fs s q)"
proof -
  from assms have lv: "1 \<le> level" "level \<le> 9"
    by (auto simp: compress_folder_def split: if_splits)
  have gz: "compression_format = ''gz''"
    using assms compress_folder_not_gz_raises[of compression_format folder level s] by auto
  let ?ap = "butlast folder @ [replace_suffix (name_of folder) ''.tar.gz'']"
  from assms lv gz obtain ap where ws: "with_suffix folder ''.tar.gz'' = Inr ap"
    by (auto simp: compress_folder_def archive_ext_def split: sum.splits)
  have ext: "''.tar.gz'' \<in> set archive_exts" by (simp add: archive_exts_def)
  note sib = with_suffix_sibling[OF ws ext]
  have ne: "folder \<noteq> []" using sib by (rule conjunct1)
  have np: "\<not> prefix folder ap" using sib by blast
  have ap: "ap = ?ap" using sib by blast
  from assms lv gz ws obtain f1 where op: "open_for_writing ap (fs s) = Inr f1"
    by (auto simp: compress_folder_def archive_ext_def tarfile_open_def
             split: sum.splits prod.splits)
  then have f1: "f1 = (fs s)(ap \<mapsto> Truncated)"
    by (auto simp: open_for_writing_def split: if_splits)
  have to: "tarfile_open ap ''gz'' (Some level) (fs s) = (Inr level, f1)"
    using op by (simp add: tarfile_open_def)
  have sub: "(\<lambda>rel. f1 (folder @ rel)) = (\<lambda>rel. fs s (folder @ rel))"
    using np by (auto simp: f1 fun_eq_iff)
  have apf: "ap \<noteq> folder" using np by auto
  have f1f: "f1 folder = fs s folder" using apf by (simp add: f1)
  have ex: "fs s folder \<noteq> None"
  proof
    assume "fs s folder = None"
    then have "tar_add_close ap ''gz'' level folder (name_of folder) f1 = Inl (OSError folder)"
      using f1f by (simp add: tar_add_close_def)
    with assms lv gz ws to show False
      by (simp add: compress_folder_def archive_ext_def)
  qed
  let ?f2 = "f1(ap \<mapsto> TarArchive ''gz'' level (name_of folder) (\<lambda>rel. fs s (folder @ rel)))"
  have ta: "tar_add_close ap ''gz'' level folder (name_of folder) f1 = Inr ?f2"
    using ex f1f by (simp add: tar_add_close_def sub)
  from assms lv gz ws to ta have rm: "rmtree folder ?f2 = Inr (fs s')" and eq: "archive_path = ap"
    by (auto simp: compress_folder_def archive_ext_def Let_def split: sum.splits)
  then have d: "fs s folder = Some Dir" and fs': "fs s' = remove_tree folder ?f2"
    using apf f1f by (auto simp: rmtree_def split: if_splits)
  show ?thesis
    using gz lv eq ap d np by (auto simp: fs' remove_tree_def f1)
qed

text \<open>A call that raises has not touched the folder or anything below it.\<close>

lemma compress_folder_failure_keeps_folder:
  assumes "compress_folder folder compression_format level s = (Inl x, s')"
  shows "\<forall>q. prefix folder q \<longrightarrow> fs s' q = fs s q"
proof (cases "1 \<le> level \<and> level \<le> 9")
  case False
  with assms show ?thesis by (auto simp: compress_folder_def)
next
  case lv: True
  show ?thesis
  proof (cases "with_suffix folder (archive_ext compression_format)")
    case (Inl y)
    with assms lv show ?thesis by (auto simp: compress_folder_def)
  next
    case (Inr ap)
    from with_suffix_sibling[OF Inr archive_ext_in] have np: "\<not> prefix folder ap" by blast
    have "\<forall>q. q \<noteq> ap \<longrightarrow> fs s' q = fs s q"
      using assms lv Inr
      by (auto simp: compress_folder_def tarfile_open_def open_for_writing_def tar_add_close_def
            Let_def split: sum.splits prod.splits if_splits option.splits)
    with np show ?thesis by auto
  qed
qed

text \<open>
  C6. For every folder and level: a call of \<open>compress_folder\<close> that returns has a
  level in 1..9 and returns the archive path, the folder's path with its name's suffix
  replaced by the codec's extension (the codec is gz: the others raise). The folder was
  a directory; the archive at that path holds, under the folder's base name as root,
  the tree that was at the folder; nothing is left at or below the folder; every other
  path is as before. A call that raises leaves the folder and everything below it as it
  was: the folder is deleted only once the archive is written.
\<close>

theorem compress_folder_archives_then_deletes:
  "(compress_folder folder compression_format level s = (Inr archive_path, s') \<longrightarrow>
      compression_format = ''gz'' \<and> 1 \<le> level \<and> level \<le> 9 \<and>
      archive_path
        = butlast folder @ [replace_suffix (name_of folder) (archive_ext compression_format)] \<and>
      fs s folder = Some Dir \<and>
      fs s' archive_path
        = Some (TarArchive compression_format level (name_of folder)
                  (\<lambda>rel. fs s (folder @ rel))) \<and>
      (\<forall>q. prefix folder q \<longrightarrow> fs s' q = None) \<and>
      (\<forall>q. \<not> prefix folder q \<and> q \<noteq> archive_path \<longrightarrow> fs s' q = fs s q)) \<and>
   (compress_folder folder compression_format level s = (Inl x, s') \<longrightarrow>
      (\<forall>q. prefix folder q \<longrightarrow> fs s' q = fs s q))"
proof -
  have "archive_ext ''gz'' = ''.tar.gz''" by (simp add: archive_ext_def)
  then show ?thesis
    using compress_folder_success[of folder compression_format level s archive_path s']
      compress_folder_failure_keeps_folder[of folder compression_format level s x s']
    by auto
qed

theorem compress_folder_archives_then_deletes_witness:
  "fst (compress_folder [''out'', ''raw_review_Books''] ''gz'' 6 test_world)
     = Inr [''out'', ''raw_review_Books.tar.gz''] \<and>
   fs (snd (compress_folder [''out'', ''raw_review_Books''] ''gz'' 6 test_world))
      [''out'', ''raw_review_Books.tar.gz'']
     = Some (TarArchive ''gz'' 6 ''raw_review_Books''
               (\<lambda>rel. test_disk ([''out'', ''raw_review_Books''] @ rel))) \<and>
   fs (snd (compress_folder [''out'', ''raw_review_Books''] ''gz'' 6 test_world))
      [''out'', ''raw_review_Books'', ''data.arrow''] = None"
proof -
  let ?r = "compress_folder [''out'', ''raw_review_Books''] ''gz'' 6 test_world"
  have "fst ?r = Inr [''out'', ''raw_review_Books.tar.gz'']"
    by (simp add: compress_folder_def archive_ext_def with_suffix_def name_of_def
        replace_suffix_def suffix_of_def tarfile_open_def open_for_writing_def is_dir_def
        tar_add_close_def rmtree_def Let_def test_world_def test_disk_def)
  then have r: "?r = (Inr [''out'', ''raw_review_Books.tar.gz''], snd ?r)"
    by (simp add: prod_eq_iff)
  have p: "prefix [''out'', ''raw_review_Books''] [''out'', ''raw_review_Books'', ''data.arrow'']"
    by simp
  note t = compress_folder_archives_then_deletes
      [of "[''out'', ''raw_review_Books'']" "''gz''" 6 test_world
          "[''out'', ''raw_review_Books.tar.gz'']" "snd ?r", THEN conjunct1, THEN mp, OF r]
  have a: "fs (snd ?r) [''out'', ''raw_review_Books.tar.gz'']
     = Some (TarArchive ''gz'' 6 (name_of [''out'', ''raw_review_Books''])
               (\<lambda>rel. fs test_world ([''out'', ''raw_review_Books''] @ rel)))"
    using t by blast
  have b: "fs (snd ?r) [''out'', ''raw_review_Books'', ''data.arrow''] = None"
    using t p by blast
  show ?thesis
    using a b \<open>fst ?r = Inr [''out'', ''raw_review_Books.tar.gz'']\<close>
    by (simp add: name_of_def test_world_def)
qed

subsection \<open>The dataset processor\<close>

text \<open>
  C1. For every dataset type and category: when the target folder
  \<^verbatim>\<open><base>/raw_<type>_<category>\<close> exists, or something exists at that location with one
  of the three archive extensions (the path \<^verbatim>\<open>dataset_path.with_suffix(ext)\<close>, which for
  a folder name without a dot is the folder name followed by the extension), then
  \<open>process_dataset\<close> returns the skip status for that folder and leaves the world as it
  was: no request to the hub is logged, the file system and the console are unchanged.
\<close>

theorem process_dataset_skip:
  assumes "dataset_path = joinpath base (folder_name_of dataset_type category)"
    and "path_exists (fs s) dataset_path \<or>
         (\<exists>ext \<in> set archive_exts.
            path_exists (fs s)
              (butlast dataset_path @ [replace_suffix (name_of dataset_path) ext]))"
  shows "process_dataset e dataset_type category base compress compression_format
           compression_level s = (Inr (SKIP (folder_name_of dataset_type category)), s)"
  using assms name_of_dataset_path[of base dataset_type category]
  by (auto simp: process_dataset_def collect_with_suffix Let_def)

theorem process_dataset_skip_witness:
  "path_exists (fs test_world) [''out'', ''raw_meta_Books.tar.gz''] \<and>
   process_dataset test_env ''meta'' ''Books'' [''out''] True ''gz'' 6 test_world
     = (Inr (SKIP ''raw_meta_Books''), test_world)"
  using process_dataset_skip [of "[''out'', ''raw_meta_Books'']" "[''out'']" "''meta''" "''Books''"
          test_world test_env True "''gz''" 6]
  by (simp add: joinpath_def folder_name_of_def parse_parts_def replace_suffix_def suffix_of_def
        name_of_def archive_exts_def path_exists_def test_world_def test_disk_def)

subsection \<open>Validation in the orchestrator\<close>

text \<open>
  C4. For every requested category list with at least one name outside the registry,
  \<open>download_all_amazon_reviews\<close> raises the invalid-categories error carrying exactly
  the set of all invalid names, and the world it leaves differs from the initial one in
  the cache setting only: no request to the hub, no change of the file system, nothing
  on the console.
\<close>

theorem invalid_categories_rejected:
  assumes "\<exists>c \<in> set cs. c \<notin> set VALID_CATEGORIES"
  shows "download_all_amazon_reviews e base_save_path (Some cs) compress compression_format
           compression_level s
         = (Inl (ValueError_categories (set cs - set VALID_CATEGORIES)),
            s\<lparr>HF_DATASETS_CACHE := ''E:/hf_cache''\<rparr>)"
  using assms by (auto simp: download_all_amazon_reviews_def Let_def)

theorem invalid_categories_rejected_witness:
  "(\<exists>c \<in> set [''Books'', ''NotACategory'', ''Boks'']. c \<notin> set VALID_CATEGORIES) \<and>
   download_all_amazon_reviews test_env ''out'' (Some [''Books'', ''NotACategory'', ''Boks''])
       False ''gz'' 6 test_world
     = (Inl (ValueError_categories {''NotACategory'', ''Boks''}),
        test_world\<lparr>HF_DATASETS_CACHE := ''E:/hf_cache''\<rparr>)"
  using invalid_categories_rejected [of "[''Books'', ''NotACategory'', ''Boks'']" test_env "''out''"
          False "''gz''" 6 test_world]
  by (simp add: VALID_CATEGORIES_def insert_Diff_if)

text \<open>
  C5. For every level outside 1..9: \<open>compress_folder\<close> raises the level error
  carrying the offending value and changes nothing; \<open>download_all_amazon_reviews\<close>,
  when the categories pass their check, raises the same error carrying the value; and
  whatever the categories are, it raises with the world changed in the cache setting
  only, so before any work on a category.
\<close>

theorem level_out_of_range_rejected:
  assumes "level < 1 \<or> 9 < level"
  shows "compress_folder folder compression_format level s = (Inl (ValueError_level level), s) \<and>
    (categories_valid categories_arg \<longrightarrow>
       download_all_amazon_reviews e base_save_path categories_arg compress compression_format
           level s
         = (Inl (ValueError_level level), s\<lparr>HF_DATASETS_CACHE := ''E:/hf_cache''\<rparr>)) \<and>
    (\<exists>x. download_all_amazon_reviews e base_save_path categories_arg compress compression_format
           level s = (Inl x, s\<lparr>HF_DATASETS_CACHE := ''E:/hf_cache''\<rparr>))"
  using assms
  by (auto simp: compress_folder_def download_all_amazon_reviews_def categories_valid_def Let_def
           split: option.splits)

theorem level_out_of_range_rejected_witness:
  "((10::int) < 1 \<or> 9 < (10::int)) \<and> categories_valid (Some [''Books'']) \<and>
   compress_folder [''out'', ''raw_review_Books''] ''gz'' 10 test_world
     = (Inl (ValueError_level 10), test_world) \<and>
   download_all_amazon_reviews test_env ''out'' (Some [''Books'']) True ''gz'' 10 test_world
     = (Inl (ValueError_level 10), test_world\<lparr>HF_DATASETS_CACHE := ''E:/hf_cache''\<rparr>)"
  using level_out_of_range_rejected [of 10 "[''out'', ''raw_review_Books'']" "''gz''" test_world
          "Some [''Books'']" test_env "''out''" True]
  by (simp add: categories_valid_def VALID_CATEGORIES_def)

text \<open>
  C7. For every \<open>base_save_path\<close>: when the resolved output path and the resolved
  cache path \<^verbatim>\<open>E:/hf_cache\<close> are equal or one is a proper ancestor of the other,
  \<open>download_all_amazon_reviews\<close> raises, and the world differs from the initial one in
  the cache setting only: the output directory is not created and no category is
  processed. With arguments that pass the earlier checks the exception is the overlap
  error.
\<close>

theorem overlapping_paths_rejected:
  assumes "base = resolve e base_save_path"
    and "cache_path = resolve e ''E:/hf_cache''"
    and "base = cache_path \<or> strict_prefix base cache_path \<or> strict_prefix cache_path base"
  shows "(\<exists>x. download_all_amazon_reviews e base_save_path categories_arg compress
                compression_format compression_level s
              = (Inl x, s\<lparr>HF_DATASETS_CACHE := ''E:/hf_cache''\<rparr>)) \<and>
         (categories_valid categories_arg \<and> 1 \<le> compression_level \<and> compression_level \<le> 9
            \<and> compression_format \<in> {''gz'', ''bz2'', ''xz''} \<longrightarrow>
          download_all_amazon_reviews e base_save_path categories_arg compress compression_format
              compression_level s
            = (Inl ValueError_overlap, s\<lparr>HF_DATASETS_CACHE := ''E:/hf_cache''\<rparr>))"
  using assms
  by (auto simp: download_all_amazon_reviews_def categories_valid_def Let_def in_parents
        get_cache_directory_def expanduser_fixed_cache split: option.splits)

theorem overlapping_paths_rejected_witness:
  "categories_valid None \<and>
   resolve test_env ''E:'' = [''work'', ''E:''] \<and>
   resolve test_env ''E:/hf_cache'' = [''work'', ''E:'', ''hf_cache''] \<and>
   strict_prefix [''work'', ''E:''] [''work'', ''E:'', ''hf_cache''] \<and>
   download_all_amazon_reviews test_env ''E:'' None False ''xz'' 1 test_world
     = (Inl ValueError_overlap, test_world\<lparr>HF_DATASETS_CACHE := ''E:/hf_cache''\<rparr>)"
  using overlapping_paths_rejected [of "[''work'', ''E:'']" test_env "''E:''"
          "[''work'', ''E:'', ''hf_cache'']" None False "''xz''" 1 test_world]
  by (simp add: categories_valid_def test_env_def joinpath_def parse_parts_def)

subsection \<open>The loop over the categories\<close>

lemma purge_cache_frame [simp]:
  "HF_DATASETS_CACHE (purge_cache c s) = HF_DATASETS_CACHE s"
  "fetched (purge_cache c s) = fetched s" "console (purge_cache c s) = console s"
  by (simp_all add: purge_cache_def)

lemma run_categories_Nil [simp]:
  "run_categories e base cache compress cf lvl [] st = st"
  by (simp add: run_categories_def)

lemma run_categories_Cons [simp]:
  "run_categories e base cache compress cf lvl (c # cs) st
     = run_categories e base cache compress cf lvl cs
         (process_category e base cache compress cf lvl c st)"
  by (simp add: run_categories_def)

lemma run_categories_append:
  "run_categories e base cache compress cf lvl (xs @ ys) st
     = run_categories e base cache compress cf lvl ys
         (run_categories e base cache compress cf lvl xs st)"
  by (simp add: run_categories_def)

text \<open>One turn appends the category to exactly one of the two lists.\<close>

lemma try_category_records:
  "try_category e base compress cf lvl c (s, successful, failed) = (s', successful', failed') \<Longrightarrow>
   (successful' = successful @ [c] \<and> failed' = failed) \<or>
   (successful' = successful \<and> (\<exists>x. failed' = failed @ [(c, x)]))"
  by (auto simp: try_category_def record_failure_def split: sum.splits prod.splits)

lemma process_category_records:
  "process_category e base cache compress cf lvl c (s, successful, failed)
     = (s', successful', failed') \<Longrightarrow>
   (successful' = successful @ [c] \<and> failed' = failed) \<or>
   (successful' = successful \<and> (\<exists>x. failed' = failed @ [(c, x)]))"
  using try_category_records[of e base compress cf lvl c s successful failed]
  by (auto simp: process_category_def split: prod.splits)

lemma run_categories_records:
  "run_categories e base cache compress cf lvl cs (s, successful, failed)
     = (s', successful', failed') \<Longrightarrow>
   mset successful' + mset (map fst failed') = mset successful + mset (map fst failed) + mset cs
   \<and> set failed \<subseteq> set failed' \<and> set successful \<subseteq> set successful'"
proof (induction cs arbitrary: s successful failed)
  case Nil
  then show ?case by simp
next
  case (Cons c cs)
  obtain s1 a1 b1 where p: "process_category e base cache compress cf lvl c (s, successful, failed)
     = (s1, a1, b1)" by (cases "process_category e base cache compress cf lvl c (s, successful, failed)")
  from Cons.prems p have r: "run_categories e base cache compress cf lvl cs (s1, a1, b1)
     = (s', successful', failed')" by simp
  from process_category_records[OF p] Cons.IH[OF r] show ?case by auto
qed

lemma try_category_frame:
  "try_category e base compress cf lvl c (s, successful, failed) = (s', successful', failed') \<Longrightarrow>
   HF_DATASETS_CACHE s' = HF_DATASETS_CACHE s"
proof -
  assume a: "try_category e base compress cf lvl c (s, successful, failed) = (s', successful', failed')"
  let ?s0 = "emit (Spinner_start c) s"
  obtain r1 s1 where p1: "process_dataset e ''review'' c base compress cf lvl ?s0 = (r1, s1)"
    by (cases "process_dataset e ''review'' c base compress cf lvl ?s0")
  have h1: "HF_DATASETS_CACHE s1 = HF_DATASETS_CACHE s"
    using process_dataset_frame[of e "''review''" c base compress cf lvl ?s0] p1 by simp
  show ?thesis
  proof (cases r1)
    case (Inl x)
    with a p1 h1 show ?thesis by (auto simp: try_category_def record_failure_def)
  next
    case (Inr st)
    let ?s2 = "emit (Spinner_write st) s1"
    obtain r2 s2 where p2: "process_dataset e ''meta'' c base compress cf lvl ?s2 = (r2, s2)"
      by (cases "process_dataset e ''meta'' c base compress cf lvl ?s2")
    have h2: "HF_DATASETS_CACHE s2 = HF_DATASETS_CACHE s"
      using process_dataset_frame[of e "''meta''" c base compress cf lvl ?s2] p2 h1 by simp
    from a p1 Inr p2 h2 show ?thesis
      by (cases r2) (auto simp: try_category_def record_failure_def)
  qed
qed

lemma process_category_frame:
  "process_category e base cache compress cf lvl c (s, successful, failed) = (s', successful', failed') \<Longrightarrow>
   HF_DATASETS_CACHE s' = HF_DATASETS_CACHE s"
  using try_category_frame[of e base compress cf lvl c s successful failed]
  by (auto simp: process_category_def split: prod.splits)

lemma run_categories_frame:
  "run_categories e base cache compress cf lvl cs (s, successful, failed) = (s', successful', failed') \<Longrightarrow>
   HF_DATASETS_CACHE s' = HF_DATASETS_CACHE s"
proof (induction cs arbitrary: s successful failed)
  case Nil
  then show ?case by simp
next
  case (Cons c cs)
  obtain s1 a1 b1 where p: "process_category e base cache compress cf lvl c (s, successful, failed)
     = (s1, a1, b1)" by (cases "process_category e base cache compress cf lvl c (s, successful, failed)")
  from Cons.prems p have r: "run_categories e base cache compress cf lvl cs (s1, a1, b1)
     = (s', successful', failed')" by simp
  from process_category_frame[OF p] Cons.IH[OF r] show ?case by simp
qed

lemma fold_emit_frame:
  "HF_DATASETS_CACHE (fold (\<lambda>(category, x). emit (g category x)) xs s) = HF_DATASETS_CACHE s \<and>
   fs (fold (\<lambda>(category, x). emit (g category x)) xs s) = fs s \<and>
   fetched (fold (\<lambda>(category, x). emit (g category x)) xs s) = fetched s \<and>
   console (fold (\<lambda>(category, x). emit (g category x)) xs s)
     = console s @ map (\<lambda>(category, x). g category x) xs"
  by (induction xs arbitrary: s) (auto)

lemma print_summary_frame:
  "HF_DATASETS_CACHE (print_summary cs successful failed s) = HF_DATASETS_CACHE s \<and>
   fs (print_summary cs successful failed s) = fs s \<and>
   fetched (print_summary cs successful failed s) = fetched s"
  by (simp add: print_summary_def Let_def fold_emit_frame)

lemma print_summary_console:
  "console (print_summary cs successful failed s)
     = console s @ [Download_summary, Summary_successful (length successful) (length cs)]
       @ (if failed = [] then []
          else Summary_failed (length failed) (length cs)
               # map (\<lambda>(category, x). Summary_failed_item category x) failed)"
  by (simp add: print_summary_def Let_def fold_emit_frame)

lemma compression_banner_frame [simp]:
  "HF_DATASETS_CACHE (compression_banner c cf lvl s) = HF_DATASETS_CACHE s"
  "fs (compression_banner c cf lvl s) = fs s"
  "fetched (compression_banner c cf lvl s) = fetched s"
  by (simp_all add: compression_banner_def)

text \<open>A run whose arguments pass every check and whose output directory can be made.\<close>

lemma download_all_valid_run:
  assumes "categories_valid categories_arg"
    and "1 \<le> lvl \<and> lvl \<le> 9"
    and "cf \<in> {''gz'', ''bz2'', ''xz''}"
    and "base = resolve e base_save_path"
    and "cache = resolve e ''E:/hf_cache''"
    and "\<not> (base = cache \<or> strict_prefix base cache \<or> strict_prefix cache base)"
    and "mkdir_parents base (fs s) = Inr f2"
    and "run_categories e base cache compress cf lvl (requested categories_arg)
           (compression_banner compress cf lvl (s\<lparr>HF_DATASETS_CACHE := ''E:/hf_cache'', fs := f2\<rparr>),
            [], []) = (s4, successful, failed)"
  shows "download_all_amazon_reviews e base_save_path categories_arg compress cf lvl s
         = (Inr (), print_summary (requested categories_arg) successful failed s4)"
  using assms
  by (auto simp: download_all_amazon_reviews_def categories_valid_def Let_def in_parents
        get_cache_directory_def expanduser_fixed_cache split: option.splits)

text \<open>
  C9. \<open>download_all_amazon_reviews\<close> overwrites the cache setting before it checks
  anything: after every call, returning or raising, the setting is \<^verbatim>\<open>E:/hf_cache\<close>.
  A call with a bad category, level or format raises with the world changed in exactly
  that setting, so the world is not the initial one whenever the setting was different
  before.
\<close>

theorem cache_setting_overwritten:
  "HF_DATASETS_CACHE (snd (download_all_amazon_reviews e base_save_path categories_arg compress
       cf lvl s)) = ''E:/hf_cache'' \<and>
   (\<not> categories_valid categories_arg \<or> lvl < 1 \<or> 9 < lvl \<or> cf \<notin> {''gz'', ''bz2'', ''xz''} \<longrightarrow>
      (\<exists>x. download_all_amazon_reviews e base_save_path categories_arg compress cf lvl s
            = (Inl x, s\<lparr>HF_DATASETS_CACHE := ''E:/hf_cache''\<rparr>)) \<and>
      (HF_DATASETS_CACHE s \<noteq> ''E:/hf_cache'' \<longrightarrow>
         snd (download_all_amazon_reviews e base_save_path categories_arg compress cf lvl s) \<noteq> s))"
proof -
  let ?s0 = "s\<lparr>HF_DATASETS_CACHE := ''E:/hf_cache''\<rparr>"
  let ?d = "download_all_amazon_reviews e base_save_path categories_arg compress cf lvl s"
  have loop: "HF_DATASETS_CACHE (print_summary cs a b s4) = ''E:/hf_cache''"
    if "run_categories e base cache compress cf lvl cs'
          (compression_banner compress cf lvl (?s0\<lparr>fs := f2\<rparr>), [], []) = (s4, a, b)"
    for base cache cs cs' f2 s4 a b
    using run_categories_frame[OF that] by (simp add: print_summary_frame)
  have first: "HF_DATASETS_CACHE (snd ?d) = ''E:/hf_cache''"
    unfolding download_all_amazon_reviews_def Let_def get_cache_directory_def
    by (auto split: sum.splits prod.splits option.splits simp: loop)
  have second: "\<exists>x. ?d = (Inl x, ?s0)"
    if "\<not> categories_valid categories_arg \<or> lvl < 1 \<or> 9 < lvl \<or> cf \<notin> {''gz'', ''bz2'', ''xz''}"
    using that
    by (auto simp: download_all_amazon_reviews_def categories_valid_def Let_def split: option.splits)
  show ?thesis using first second by (metis snd_conv)
qed

theorem cache_setting_overwritten_witness:
  "\<not> categories_valid (Some [''NotACategory'']) \<and>
   HF_DATASETS_CACHE test_world \<noteq> ''E:/hf_cache'' \<and>
   HF_DATASETS_CACHE (snd (download_all_amazon_reviews test_env ''/out'' (Some [''NotACategory''])
       False ''gz'' 6 test_world)) = ''E:/hf_cache'' \<and>
   snd (download_all_amazon_reviews test_env ''/out'' (Some [''NotACategory''])
       False ''gz'' 6 test_world) \<noteq> test_world"
  using cache_setting_overwritten [of test_env "''/out''" "Some [''NotACategory'']" False
          "''gz''" 6 test_world]
  by (simp add: categories_valid_def VALID_CATEGORIES_def test_world_def)

subsection \<open>Runs of the whole script\<close>

text \<open>The definitions a concrete run unfolds.\<close>

lemmas eval_defs = run_categories_def process_category_def try_category_def record_failure_def
  purge_cache_def process_dataset_def folder_name_of_def joinpath_def parse_parts_def
  archive_exts_def with_suffix_def name_of_def replace_suffix_def suffix_of_def path_exists_def
  load_dataset_def mkdir_parents_def is_file_def save_to_disk_def write_files_def
  rmtree_ignore_errors_def rmtree_def remove_tree_def emit_def
  test_env_def test_world_def test_disk_def run_world_def Let_def

lemmas top_defs = download_all_amazon_reviews_def requested_def get_cache_directory_def
  expanduser_fixed_cache parents_def compression_banner_def VALID_CATEGORIES_def
  categories_valid_def

text \<open>A run that returns has passed every check, made the output directory and run the loop.\<close>

lemma download_all_completed:
  assumes "download_all_amazon_reviews e base_save_path categories_arg compress cf lvl s = (Inr u, s')"
  shows "\<exists>f2 s4 successful failed.
           mkdir_parents (resolve e base_save_path) (fs s) = Inr f2 \<and>
           run_categories e (resolve e base_save_path) (resolve e ''E:/hf_cache'') compress cf lvl
             (requested categories_arg)
             (compression_banner compress cf lvl
                (s\<lparr>HF_DATASETS_CACHE := ''E:/hf_cache'', fs := f2\<rparr>), [], [])
             = (s4, successful, failed) \<and>
           s' = print_summary (requested categories_arg) successful failed s4"
  using assms
  unfolding download_all_amazon_reviews_def Let_def get_cache_directory_def
  by (auto simp: expanduser_fixed_cache split: if_splits sum.splits prod.splits)

text \<open>The turn of a category whose reviews raise: the handler and the purge, nothing else.\<close>

lemma review_failure_turn:
  assumes "process_dataset e ''review'' c base compress cf lvl (emit (Spinner_start c) s) = (Inl x, s1)"
  shows "process_category e base cache compress cf lvl c (s, successful, failed)
           = (purge_cache cache (emit (Spinner_failed_category c x) (emit Spinner_fail s1)),
              successful, failed @ [(c, x)])"
  using assms by (simp add: process_category_def try_category_def record_failure_def)

text \<open>What a turn of the loop is, in terms of the two calls of the dataset processor.\<close>

lemma process_category_turn:
  "process_category e base cache compress cf lvl d (sd, a, b)
     = (case process_dataset e ''review'' d base compress cf lvl (emit (Spinner_start d) sd) of
          (Inl y, w1) \<Rightarrow>
            (purge_cache cache (emit (Spinner_failed_category d y) (emit Spinner_fail w1)),
             a, b @ [(d, y)])
        | (Inr review_result, w1) \<Rightarrow>
            (case process_dataset e ''meta'' d base compress cf lvl
                    (emit (Spinner_write review_result) w1) of
               (Inl y, w2) \<Rightarrow>
                 (purge_cache cache (emit (Spinner_failed_category d y) (emit Spinner_fail w2)),
                  a, b @ [(d, y)])
             | (Inr meta_result, w2) \<Rightarrow>
                 (purge_cache cache (emit Spinner_ok (emit (Spinner_write meta_result) w2)),
                  a @ [d], b)))"
  by (simp add: process_category_def try_category_def record_failure_def
           split: prod.splits sum.splits)

lemma process_dataset_fetched_prefix:
  "prefix (fetched s) (fetched (snd (process_dataset e t c base compress cf lvl s)))"
  using process_dataset_frame[of e t c base compress cf lvl s] by auto

text \<open>A dataset that cannot be skipped is requested from the hub.\<close>

lemma process_dataset_fetches:
  assumes "dp = joinpath base (folder_name_of t c)"
    and "\<not> path_exists (fs s) dp"
    and "\<forall>ext \<in> set archive_exts.
           \<not> path_exists (fs s) (butlast dp @ [replace_suffix (name_of dp) ext])"
  shows "fetched (snd (process_dataset e t c base compress cf lvl s))
           = fetched s @ [folder_name_of t c]"
proof -
  let ?n = "folder_name_of t c"
  obtain r1 s1 where l: "load_dataset e ?n s = (r1, s1)" by (cases "load_dataset e ?n s")
  have f1: "fetched s1 = fetched s @ [?n]"
    using load_dataset_frame[of e ?n s] l by simp
  have sv: "fetched (snd (save_to_disk e ds dp (s1\<lparr>fs := f\<rparr>))) = fetched s @ [?n]" for ds f
    using save_to_disk_frame[of e ds dp "s1\<lparr>fs := f\<rparr>"] f1 by simp
  have cp: "fetched (snd (compress_folder dp cf lvl s3)) = fetched s3" for s3
    using compress_folder_frame[of dp cf lvl s3] by simp
  have ne: "name_of dp \<noteq> []" unfolding assms(1) by (rule name_of_dataset_path)
  show ?thesis
    using assms(2,3) f1 sv cp
    unfolding process_dataset_def Let_def assms(1)[symmetric] collect_with_suffix[OF ne]
    by (auto split: sum.splits prod.splits simp: l) (metis snd_conv)+
qed

lemma process_category_fetched:
  assumes "process_category e base cache compress cf lvl d (sd, a, b) = (sd', a', b')"
  shows "prefix (fetched (snd (process_dataset e ''review'' d base compress cf lvl
                                (emit (Spinner_start d) sd)))) (fetched sd')"
proof -
  let ?r = "process_dataset e ''review'' d base compress cf lvl (emit (Spinner_start d) sd)"
  obtain r1 w1 where p1: "?r = (r1, w1)" by (cases ?r)
  show ?thesis
  proof (cases r1)
    case (Inl y)
    with assms p1 show ?thesis by (auto simp: process_category_turn)
  next
    case (Inr st)
    let ?m = "process_dataset e ''meta'' d base compress cf lvl (emit (Spinner_write st) w1)"
    obtain r2 w2 where p2: "?m = (r2, w2)" by (cases ?m)
    have "prefix (fetched (emit (Spinner_write st) w1)) (fetched (snd ?m))"
      by (rule process_dataset_fetched_prefix)
    then have pw: "prefix (fetched w1) (fetched w2)" using p2 by simp
    from assms p1 Inr p2 pw show ?thesis
      by (cases r2) (auto simp: process_category_turn)
  qed
qed

lemma process_category_fetched_grows:
  assumes "process_category e base cache compress cf lvl d (sd, a, b) = (sd', a', b')"
  shows "prefix (fetched sd) (fetched sd')"
proof -
  have "prefix (fetched (emit (Spinner_start d) sd))
          (fetched (snd (process_dataset e ''review'' d base compress cf lvl
                                (emit (Spinner_start d) sd))))"
    by (rule process_dataset_fetched_prefix)
  with process_category_fetched[OF assms] show ?thesis by (auto intro: prefix_order.trans)
qed

lemma run_categories_fetched_grows:
  "run_categories e base cache compress cf lvl cs (s, a, b) = (s', a', b') \<Longrightarrow>
   prefix (fetched s) (fetched s')"
proof (induction cs arbitrary: s a b)
  case Nil
  then show ?case by simp
next
  case (Cons c cs)
  obtain s1 a1 b1 where p: "process_category e base cache compress cf lvl c (s, a, b) = (s1, a1, b1)"
    by (cases "process_category e base cache compress cf lvl c (s, a, b)")
  from Cons.prems p have r: "run_categories e base cache compress cf lvl cs (s1, a1, b1) = (s', a', b')"
    by simp
  from process_category_fetched_grows[OF p] Cons.IH[OF r] show ?case
    by (rule prefix_order.trans)
qed

text \<open>
  Every category of the list gets its turn: the reviews are processed from the world the
  earlier turns left, and a request that has to go to the hub is in the log at the end.
\<close>

lemma every_category_processed:
  assumes "run_categories e base cache compress cf lvl cs st = (s4, successful', failed')"
    and "cs = p1 @ d # p2"
    and "run_categories e base cache compress cf lvl p1 st = (sd, a, b)"
    and "dp = joinpath base (folder_name_of ''review'' d)"
  shows "run_categories e base cache compress cf lvl p2
           (process_category e base cache compress cf lvl d (sd, a, b)) = (s4, successful', failed') \<and>
         (\<not> path_exists (fs sd) dp \<and>
          (\<forall>ext \<in> set archive_exts.
              \<not> path_exists (fs sd) (butlast dp @ [replace_suffix (name_of dp) ext])) \<longrightarrow>
          folder_name_of ''review'' d \<in> set (fetched s4))"
proof -
  let ?turn = "process_category e base cache compress cf lvl d (sd, a, b)"
  have rest: "run_categories e base cache compress cf lvl p2 ?turn = (s4, successful', failed')"
    using assms(1) unfolding assms(2) run_categories_append assms(3) run_categories_Cons .
  obtain sd' a' b' where t: "?turn = (sd', a', b')" by (cases ?turn)
  have g: "prefix (fetched sd') (fetched s4)"
    using rest unfolding t by (rule run_categories_fetched_grows)
  have "folder_name_of ''review'' d \<in> set (fetched s4)"
    if n: "\<not> path_exists (fs sd) dp"
      "\<forall>ext \<in> set archive_exts.
              \<not> path_exists (fs sd) (butlast dp @ [replace_suffix (name_of dp) ext])"
  proof -
    let ?r = "process_dataset e ''review'' d base compress cf lvl (emit (Spinner_start d) sd)"
    have "fetched (snd ?r) = fetched (emit (Spinner_start d) sd) @ [folder_name_of ''review'' d]"
      using n by (intro process_dataset_fetches[OF assms(4)]) simp_all
    then have "folder_name_of ''review'' d \<in> set (fetched (snd ?r))" by simp
    with process_category_fetched[OF t] have "folder_name_of ''review'' d \<in> set (fetched sd')"
      using set_mono_prefix by blast
    with g show ?thesis using set_mono_prefix by blast
  qed
  with rest show ?thesis by blast
qed

text \<open>
  C3. Take a run whose arguments pass every check, and a category \<open>c\<close> of the requested
  list (after the categories \<open>pre\<close>, before the categories \<open>post\<close>) for which processing
  \<^verbatim>\<open>review\<close> raises \<open>x\<close>. Then the turn of \<open>c\<close> ends right after the handler and the purge
  of the cache: the metadata of \<open>c\<close> is not processed, and the hub has seen at most the
  request for the reviews of \<open>c\<close> in that turn. The category is recorded in \<open>failed\<close> together
  with \<open>x\<close>; the loop goes on with \<open>post\<close>, and each of its categories ends in one of the
  two lists; the call returns normally, and the summary it prints has the line for
  \<open>c\<close> and \<open>x\<close>. Every category \<open>d\<close> of \<open>post\<close> is processed in its turn: from the world
  the turns before it left, the dataset processor runs on the reviews of \<open>d\<close> and, when
  that returns, on its metadata, the world and the lists after the turn are what these
  calls, the handler and the purge give, and the remaining categories follow from
  there; when neither the folder nor an archive of the reviews of \<open>d\<close> exists at the start
  of its turn, the request for them is in the hub's log at the end of the run.
\<close>

theorem review_failure_isolated:
  assumes "categories_valid categories_arg"
    and "1 \<le> lvl \<and> lvl \<le> 9"
    and "cf \<in> {''gz'', ''bz2'', ''xz''}"
    and "base = resolve e base_save_path"
    and "cache = resolve e ''E:/hf_cache''"
    and "\<not> (base = cache \<or> strict_prefix base cache \<or> strict_prefix cache base)"
    and "mkdir_parents base (fs s) = Inr f2"
    and "requested categories_arg = pre @ c # post"
    and "run_categories e base cache compress cf lvl pre
           (compression_banner compress cf lvl (s\<lparr>HF_DATASETS_CACHE := ''E:/hf_cache'', fs := f2\<rparr>),
            [], []) = (sp, successful, failed)"
    and "process_dataset e ''review'' c base compress cf lvl (emit (Spinner_start c) sp)
           = (Inl x, s1)"
  shows "\<exists>s4 successful' failed'.
           process_category e base cache compress cf lvl c (sp, successful, failed)
             = (purge_cache cache (emit (Spinner_failed_category c x) (emit Spinner_fail s1)),
                successful, failed @ [(c, x)]) \<and>
           (fetched s1 = fetched sp \<or> fetched s1 = fetched sp @ [folder_name_of ''review'' c]) \<and>
           run_categories e base cache compress cf lvl post
             (purge_cache cache (emit (Spinner_failed_category c x) (emit Spinner_fail s1)),
              successful, failed @ [(c, x)]) = (s4, successful', failed') \<and>
           (c, x) \<in> set failed' \<and>
           set post \<subseteq> set successful' \<union> fst ` set failed' \<and>
           download_all_amazon_reviews e base_save_path categories_arg compress cf lvl s
             = (Inr (), print_summary (requested categories_arg) successful' failed' s4) \<and>
           Summary_failed_item c x
             \<in> set (console (print_summary (requested categories_arg) successful' failed' s4)) \<and>
           (\<forall>p1 d p2 sd a b.
              post = p1 @ d # p2 \<and>
              run_categories e base cache compress cf lvl p1
                (purge_cache cache (emit (Spinner_failed_category c x) (emit Spinner_fail s1)),
                 successful, failed @ [(c, x)]) = (sd, a, b) \<longrightarrow>
              process_category e base cache compress cf lvl d (sd, a, b)
                = (case process_dataset e ''review'' d base compress cf lvl
                          (emit (Spinner_start d) sd) of
                     (Inl y, w1) \<Rightarrow>
                       (purge_cache cache
                          (emit (Spinner_failed_category d y) (emit Spinner_fail w1)),
                        a, b @ [(d, y)])
                   | (Inr review_result, w1) \<Rightarrow>
                       (case process_dataset e ''meta'' d base compress cf lvl
                               (emit (Spinner_write review_result) w1) of
                          (Inl y, w2) \<Rightarrow>
                            (purge_cache cache
                               (emit (Spinner_failed_category d y) (emit Spinner_fail w2)),
                             a, b @ [(d, y)])
                        | (Inr meta_result, w2) \<Rightarrow>
                            (purge_cache cache
                               (emit Spinner_ok (emit (Spinner_write meta_result) w2)),
                             a @ [d], b))) \<and>
              run_categories e base cache compress cf lvl p2
                (process_category e base cache compress cf lvl d (sd, a, b))
                = (s4, successful', failed') \<and>
              (\<not> path_exists (fs sd) (joinpath base (folder_name_of ''review'' d)) \<and>
               (\<forall>ext \<in> set archive_exts.
                  \<not> path_exists (fs sd)
                      (butlast (joinpath base (folder_name_of ''review'' d))
                       @ [replace_suffix (name_of (joinpath base (folder_name_of ''review'' d)))
                            ext])) \<longrightarrow>
               folder_name_of ''review'' d \<in> set (fetched s4)))"
proof -
  let ?after = "(purge_cache cache (emit (Spinner_failed_category c x) (emit Spinner_fail s1)),
              successful, failed @ [(c, x)])"
  have turn: "process_category e base cache compress cf lvl c (sp, successful, failed) = ?after"
    using assms(10) by (rule review_failure_turn)
  have fe: "fetched s1 = fetched sp \<or> fetched s1 = fetched sp @ [folder_name_of ''review'' c]"
    using process_dataset_frame[of e "''review''" c base compress cf lvl "emit (Spinner_start c) sp"]
      assms(10) by simp
  obtain s4 successful' failed' where
    rest: "run_categories e base cache compress cf lvl post ?after = (s4, successful', failed')"
    by (cases "run_categories e base cache compress cf lvl post ?after")
  from run_categories_records[OF rest]
  have m: "mset successful' + mset (map fst failed')
             = mset successful + mset (map fst (failed @ [(c, x)])) + mset post"
    and keep: "set (failed @ [(c, x)]) \<subseteq> set failed'" by simp_all
  from keep have inf: "(c, x) \<in> set failed'" by auto
  have cover: "set post \<subseteq> set successful' \<union> fst ` set failed'"
  proof
    fix d assume "d \<in> set post"
    then have "d \<in># mset successful' + mset (map fst failed')" unfolding m by simp
    then show "d \<in> set successful' \<union> fst ` set failed'" by auto
  qed
  have whole: "run_categories e base cache compress cf lvl (requested categories_arg)
           (compression_banner compress cf lvl (s\<lparr>HF_DATASETS_CACHE := ''E:/hf_cache'', fs := f2\<rparr>),
            [], []) = (s4, successful', failed')"
    unfolding assms(8) run_categories_append assms(9) run_categories_Cons turn by (rule rest)
  have top: "download_all_amazon_reviews e base_save_path categories_arg compress cf lvl s
             = (Inr (), print_summary (requested categories_arg) successful' failed' s4)"
    by (rule download_all_valid_run[OF assms(1-7) whole])
  have ne: "failed' \<noteq> []" using inf by auto
  have item: "Summary_failed_item c x
             \<in> set (console (print_summary (requested categories_arg) successful' failed' s4))"
    using inf ne by (force simp: print_summary_console)
  have later: "process_category e base cache compress cf lvl d (sd, a, b)
                = (case process_dataset e ''review'' d base compress cf lvl
                          (emit (Spinner_start d) sd) of
                     (Inl y, w1) \<Rightarrow>
                       (purge_cache cache
                          (emit (Spinner_failed_category d y) (emit Spinner_fail w1)),
                        a, b @ [(d, y)])
                   | (Inr review_result, w1) \<Rightarrow>
                       (case process_dataset e ''meta'' d base compress cf lvl
                               (emit (Spinner_write review_result) w1) of
                          (Inl y, w2) \<Rightarrow>
                            (purge_cache cache
                               (emit (Spinner_failed_category d y) (emit Spinner_fail w2)),
                             a, b @ [(d, y)])
                        | (Inr meta_result, w2) \<Rightarrow>
                            (purge_cache cache
                               (emit Spinner_ok (emit (Spinner_write meta_result) w2)),
                             a @ [d], b))) \<and>
              run_categories e base cache compress cf lvl p2
                (process_category e base cache compress cf lvl d (sd, a, b))
                = (s4, successful', failed') \<and>
              (\<not> path_exists (fs sd) (joinpath base (folder_name_of ''review'' d)) \<and>
               (\<forall>ext \<in> set archive_exts.
                  \<not> path_exists (fs sd)
                      (butlast (joinpath base (folder_name_of ''review'' d))
                       @ [replace_suffix (name_of (joinpath base (folder_name_of ''review'' d)))
                            ext])) \<longrightarrow>
               folder_name_of ''review'' d \<in> set (fetched s4))"
    if "post = p1 @ d # p2" and "run_categories e base cache compress cf lvl p1 ?after = (sd, a, b)"
    for p1 d p2 sd a b
    using every_category_processed[OF rest that refl] process_category_turn[of e base cache compress cf lvl d sd a b]
    by blast
  from turn fe rest inf cover top item later show ?thesis by blast
qed

theorem review_failure_isolated_witness:
  "fst (process_dataset test_env ''review'' ''Software'' [''out''] False ''gz'' 6
          (emit (Spinner_start ''Software'')
             (test_world\<lparr>HF_DATASETS_CACHE := ''E:/hf_cache'',
                fs := (\<lambda>q. if q \<noteq> [] \<and> prefix q [''out''] then Some Dir else test_disk q)\<rparr>)))
     = Inl (External ''connection reset'') \<and>
   fst (download_all_amazon_reviews test_env ''/out'' (Some [''Software'', ''Electronics'']) False
          ''gz'' 6 test_world) = Inr () \<and>
   Summary_failed_item ''Software'' (External ''connection reset'')
     \<in> set (console (snd (download_all_amazon_reviews test_env ''/out''
                            (Some [''Software'', ''Electronics'']) False ''gz'' 6 test_world))) \<and>
   ''raw_review_Electronics''
     \<in> set (fetched (snd (download_all_amazon_reviews test_env ''/out''
                            (Some [''Software'', ''Electronics'']) False ''gz'' 6 test_world))) \<and>
   fetched (snd (download_all_amazon_reviews test_env ''/out''
                   (Some [''Software'', ''Electronics'']) False ''gz'' 6 test_world))
     = [''raw_review_Software'', ''raw_review_Electronics'', ''raw_meta_Electronics''] \<and>
   fs (snd (download_all_amazon_reviews test_env ''/out''
              (Some [''Software'', ''Electronics'']) False ''gz'' 6 test_world))
      [''out'', ''raw_review_Electronics'', ''data.arrow'']
     = Some (DataFile ''raw_review_Electronics'') \<and>
   fs (snd (download_all_amazon_reviews test_env ''/out''
              (Some [''Software'', ''Electronics'']) False ''gz'' 6 test_world))
      [''out'', ''raw_meta_Electronics'', ''data.arrow'']
     = Some (DataFile ''raw_meta_Electronics'')"
proof -
  let ?f2 = "\<lambda>q. if q \<noteq> [] \<and> prefix q [''out''] then Some Dir else test_disk q"
  let ?sp = "test_world\<lparr>HF_DATASETS_CACHE := ''E:/hf_cache'', fs := ?f2\<rparr>"
  let ?cache = "[''work'', ''E:'', ''hf_cache'']"
  let ?r = "process_dataset test_env ''review'' ''Software'' [''out''] False ''gz'' 6
              (emit (Spinner_start ''Software'') ?sp)"
  let ?x = "External ''connection reset''"
  let ?after = "purge_cache ?cache (emit (Spinner_failed_category ''Software'' ?x)
                  (emit Spinner_fail (snd ?r)))"
  let ?d = "download_all_amazon_reviews test_env ''/out'' (Some [''Software'', ''Electronics''])
              False ''gz'' 6 test_world"
  have h1: "categories_valid (Some [''Software'', ''Electronics''])"
    by (simp add: categories_valid_def VALID_CATEGORIES_def)
  have h2: "(1::int) \<le> 6 \<and> (6::int) \<le> 9" by simp
  have h3: "''gz'' \<in> {''gz'', ''bz2'', ''xz''}" by simp
  have h4: "[''out''] = resolve test_env ''/out''"
    by (simp add: test_env_def joinpath_def parse_parts_def)
  have h5: "?cache = resolve test_env ''E:/hf_cache''"
    by (simp add: test_env_def joinpath_def parse_parts_def)
  have h6: "\<not> ([''out''] = ?cache \<or> strict_prefix [''out''] ?cache \<or> strict_prefix ?cache [''out''])"
    by simp
  have fs_test_world: "fs test_world = test_disk" by (simp add: test_world_def)
  have nf: "find (is_file test_disk) (prefixes [''out'']) = None"
    by (simp add: is_file_def test_disk_def)
  have h7: "mkdir_parents [''out''] (fs test_world) = Inr ?f2"
    unfolding mkdir_parents_def fs_test_world nf by simp
  have h8: "requested (Some [''Software'', ''Electronics'']) = [] @ ''Software'' # [''Electronics'']"
    by (simp add: requested_def)
  have h9: "run_categories test_env [''out''] ?cache False ''gz'' 6 []
              (compression_banner False ''gz'' 6 ?sp, [], []) = (?sp, [], [])"
    by (simp add: compression_banner_def)
  have fr: "fst ?r = Inl ?x"
    by (simp add: eval_defs)
  then have h10: "?r = (Inl ?x, snd ?r)"
    by (simp add: prod_eq_iff)
  have ns: "\<not> path_exists (fs ?after) (joinpath [''out''] (folder_name_of ''review'' ''Electronics'')) \<and>
               (\<forall>ext \<in> set archive_exts.
                  \<not> path_exists (fs ?after)
                      (butlast (joinpath [''out''] (folder_name_of ''review'' ''Electronics''))
                       @ [replace_suffix (name_of (joinpath [''out''] (folder_name_of ''review'' ''Electronics'')))
                            ext]))"
    by (simp add: eval_defs)
  have log: "fetched (snd ?d) = [''raw_review_Software'', ''raw_review_Electronics'', ''raw_meta_Electronics'']"
    by (simp add: top_defs eval_defs print_summary_frame split: prod.splits)
  have d1: "fs (snd ?d) [''out'', ''raw_review_Electronics'', ''data.arrow'']
     = Some (DataFile ''raw_review_Electronics'')"
    by (simp add: top_defs eval_defs print_summary_frame split: prod.splits)
  have d2: "fs (snd ?d) [''out'', ''raw_meta_Electronics'', ''data.arrow'']
     = Some (DataFile ''raw_meta_Electronics'')"
    by (simp add: top_defs eval_defs print_summary_frame split: prod.splits)
  have split: "[''Electronics''] = [] @ ''Electronics'' # [] \<and>
        run_categories test_env [''out''] ?cache False ''gz'' 6 []
          (?after, [], [] @ [(''Software'', ?x)]) = (?after, [], [] @ [(''Software'', ?x)])"
    by simp
  from review_failure_isolated[OF h1 h2 h3 h4 h5 h6 h7 h8 h9 h10]
  have "fst ?d = Inr () \<and>
        Summary_failed_item ''Software'' ?x \<in> set (console (snd ?d)) \<and>
        ''raw_review_Electronics'' \<in> set (fetched (snd ?d))"
  proof (elim exE conjE)
    fix s4 successful' failed'
    assume top: "?d = (Inr (), print_summary (requested (Some [''Software'', ''Electronics'']))
                  successful' failed' s4)"
      and item: "Summary_failed_item ''Software'' ?x
             \<in> set (console (print_summary (requested (Some [''Software'', ''Electronics'']))
                  successful' failed' s4))"
      and later: "\<forall>p1 d p2 sd a b.
              [''Electronics''] = p1 @ d # p2 \<and>
              run_categories test_env [''out''] ?cache False ''gz'' 6 p1
                (?after, [], [] @ [(''Software'', ?x)]) = (sd, a, b) \<longrightarrow>
              process_category test_env [''out''] ?cache False ''gz'' 6 d (sd, a, b)
                = (case process_dataset test_env ''review'' d [''out''] False ''gz'' 6
                          (emit (Spinner_start d) sd) of
                     (Inl y, w1) \<Rightarrow>
                       (purge_cache ?cache
                          (emit (Spinner_failed_category d y) (emit Spinner_fail w1)),
                        a, b @ [(d, y)])
                   | (Inr review_result, w1) \<Rightarrow>
                       (case process_dataset test_env ''meta'' d [''out''] False ''gz'' 6
                               (emit (Spinner_write review_result) w1) of
                          (Inl y, w2) \<Rightarrow>
                            (purge_cache ?cache
                               (emit (Spinner_failed_category d y) (emit Spinner_fail w2)),
                             a, b @ [(d, y)])
                        | (Inr meta_result, w2) \<Rightarrow>
                            (purge_cache ?cache
                               (emit Spinner_ok (emit (Spinner_write meta_result) w2)),
                             a @ [d], b))) \<and>
              run_categories test_env [''out''] ?cache False ''gz'' 6 p2
                (process_category test_env [''out''] ?cache False ''gz'' 6 d (sd, a, b))
                = (s4, successful', failed') \<and>
              (\<not> path_exists (fs sd) (joinpath [''out''] (folder_name_of ''review'' d)) \<and>
               (\<forall>ext \<in> set archive_exts.
                  \<not> path_exists (fs sd)
                      (butlast (joinpath [''out''] (folder_name_of ''review'' d))
                       @ [replace_suffix (name_of (joinpath [''out''] (folder_name_of ''review'' d)))
                            ext])) \<longrightarrow>
               folder_name_of ''review'' d \<in> set (fetched s4))"
    have "folder_name_of ''review'' ''Electronics'' \<in> set (fetched s4)"
      by (rule later[rule_format, OF split, THEN conjunct2, THEN conjunct2, THEN mp, OF ns])
    then have req: "''raw_review_Electronics'' \<in> set (fetched (snd ?d))"
      unfolding top by (simp add: print_summary_frame folder_name_of_def)
    have f: "fst ?d = Inr ()" unfolding top by simp
    have it: "Summary_failed_item ''Software'' ?x \<in> set (console (snd ?d))"
      unfolding top using item by simp
    from f it req show ?thesis by (intro conjI)
  qed
  with fr log d1 d2 show ?thesis by (elim conjE) (intro conjI)
qed

text \<open>
  C8, as claimed: after every category the cache is purged through the cache
  inspector's delete operation. The loop does not call \<open>delete_cache_directory\<close>: for
  the failing category \<^verbatim>\<open>Software\<close> the turn prints the three spinner lines only, while
  the inspector's delete would add its two lines, so the world after the turn is not the
  one the inspector's delete gives.
\<close>

theorem purge_is_not_the_inspector_call:
  "console (fst (process_category test_env [''out''] [''work'', ''E:'', ''hf_cache''] False ''gz'' 6
                   ''Software'' (run_world, [], [])))
     = [Spinner_start ''Software'', Spinner_fail,
        Spinner_failed_category ''Software'' (External ''connection reset'')] \<and>
   console (delete_cache_directory test_env
              (fst (try_category test_env [''out''] False ''gz'' 6 ''Software'' (run_world, [], []))))
     = [Spinner_start ''Software'', Spinner_fail,
        Spinner_failed_category ''Software'' (External ''connection reset''),
        Info_deleting_cache ''E:/hf_cache'', Success_cache_deleted] \<and>
   fst (process_category test_env [''out''] [''work'', ''E:'', ''hf_cache''] False ''gz'' 6
          ''Software'' (run_world, [], []))
     \<noteq> delete_cache_directory test_env
          (fst (try_category test_env [''out''] False ''gz'' 6 ''Software'' (run_world, [], [])))"
proof -
  let ?p = "fst (process_category test_env [''out''] [''work'', ''E:'', ''hf_cache''] False ''gz'' 6
                   ''Software'' (run_world, [], []))"
  let ?t = "fst (try_category test_env [''out''] False ''gz'' 6 ''Software'' (run_world, [], []))"
  have a: "console ?p = [Spinner_start ''Software'', Spinner_fail,
        Spinner_failed_category ''Software'' (External ''connection reset'')]"
    by (simp add: eval_defs)
  have b: "console (delete_cache_directory test_env ?t)
     = [Spinner_start ''Software'', Spinner_fail,
        Spinner_failed_category ''Software'' (External ''connection reset''),
        Info_deleting_cache ''E:/hf_cache'', Success_cache_deleted]"
    by (simp add: delete_cache_directory_def eval_defs)
  have "console ?p \<noteq> console (delete_cache_directory test_env ?t)"
    unfolding a b by simp
  then have "?p \<noteq> delete_cache_directory test_env ?t" by auto
  with a b show ?thesis by blast
qed

lemma purge_cache_effect:
  "fs (purge_cache cache s) cache \<noteq> Some Dir \<and>
   (fs s cache = Some Dir \<longrightarrow> (\<forall>q. prefix cache q \<longrightarrow> fs (purge_cache cache s) q = None)) \<and>
   (\<forall>q. \<not> prefix cache q \<longrightarrow> fs (purge_cache cache s) q = fs s q) \<and>
   console (purge_cache cache s) = console s"
  by (auto simp: purge_cache_def rmtree_ignore_errors_def rmtree_def remove_tree_def path_exists_def)

lemma purge_cache_as_inspector:
  "cache = resolve e (HF_DATASETS_CACHE s) \<Longrightarrow>
   fs (purge_cache cache s) = fs (delete_cache_directory e s)"
  by (simp add: purge_cache_def delete_cache_directory_def Let_def)

text \<open>
  C8, amended. For every turn of the loop, however the \<^verbatim>\<open>try\<close> block ended (both
  datasets done or skipped, or an exception handled): the turn's final world is the
  \<^verbatim>\<open>finally\<close> block applied to the world the \<^verbatim>\<open>try\<close> block left. Afterwards the cache
  path is not a directory; if it was one, nothing is left at or below it; every path
  outside it is untouched and nothing is printed. On the file system this is what the
  inspector's \<open>delete_cache_directory\<close> does when the cache path is the configured one.
  The next category starts from that world.
\<close>

theorem cache_purged_after_every_category:
  assumes "process_category e base cache compress cf lvl c (s, successful, failed)
             = (s', successful', failed')"
  shows "\<exists>s1. try_category e base compress cf lvl c (s, successful, failed)
                 = (s1, successful', failed') \<and>
              s' = purge_cache cache s1 \<and>
              fs s' cache \<noteq> Some Dir \<and>
              (fs s1 cache = Some Dir \<longrightarrow> (\<forall>q. prefix cache q \<longrightarrow> fs s' q = None)) \<and>
              (\<forall>q. \<not> prefix cache q \<longrightarrow> fs s' q = fs s1 q) \<and>
              console s' = console s1 \<and>
              (cache = resolve e (HF_DATASETS_CACHE s1) \<longrightarrow> fs s' = fs (delete_cache_directory e s1)) \<and>
              (\<forall>cs. run_categories e base cache compress cf lvl (c # cs) (s, successful, failed)
                   = run_categories e base cache compress cf lvl cs (s', successful', failed'))"
proof -
  obtain s1 a b where t: "try_category e base compress cf lvl c (s, successful, failed) = (s1, a, b)"
    by (cases "try_category e base compress cf lvl c (s, successful, failed)")
  with assms have e: "s' = purge_cache cache s1" "a = successful'" "b = failed'"
    by (simp_all add: process_category_def)
  show ?thesis
    using t e assms purge_cache_effect[of cache s1] purge_cache_as_inspector[of cache e s1]
    by (intro exI[of _ s1]) simp
qed

theorem cache_purged_after_every_category_witness:
  "fs (fst (try_category test_env [''out''] False ''gz'' 6 ''Software'' (run_world, [], [])))
      [''work'', ''E:'', ''hf_cache''] = Some Dir \<and>
   fs (fst (try_category test_env [''out''] False ''gz'' 6 ''Software'' (run_world, [], [])))
      [''work'', ''E:'', ''hf_cache'', ''raw_review_Software''] = Some (DataFile ''cache'') \<and>
   fs (fst (process_category test_env [''out''] [''work'', ''E:'', ''hf_cache''] False ''gz'' 6
              ''Software'' (run_world, [], [])))
      [''work'', ''E:'', ''hf_cache'', ''raw_review_Software''] = None \<and>
   fs (fst (process_category test_env [''out''] [''work'', ''E:'', ''hf_cache''] False ''gz'' 6
              ''Software'' (run_world, [], [])))
      [''work'', ''E:'', ''hf_cache''] = None"
proof -
  let ?cache = "[''work'', ''E:'', ''hf_cache'']"
  let ?p = "process_category test_env [''out''] ?cache False ''gz'' 6 ''Software'' (run_world, [], [])"
  let ?t = "try_category test_env [''out''] False ''gz'' 6 ''Software'' (run_world, [], [])"
  have d: "fs (fst ?t) ?cache = Some Dir"
    and f: "fs (fst ?t) (?cache @ [''raw_review_Software'']) = Some (DataFile ''cache'')"
    by (simp_all add: eval_defs)
  have "?p = (fst ?p, fst (snd ?p), snd (snd ?p))" by simp
  from cache_purged_after_every_category[OF this] obtain s1 where
    t: "?t = (s1, fst (snd ?p), snd (snd ?p))" and
    g: "fs s1 ?cache = Some Dir \<longrightarrow> (\<forall>q. prefix ?cache q \<longrightarrow> fs (fst ?p) q = None)" by blast
  from t have "fst ?t = s1" by simp
  with d g have n: "\<forall>q. prefix ?cache q \<longrightarrow> fs (fst ?p) q = None" by simp
  have "prefix ?cache ?cache" "prefix ?cache (?cache @ [''raw_review_Software''])" by simp_all
  with n have "fs (fst ?p) ?cache = None" "fs (fst ?p) (?cache @ [''raw_review_Software'']) = None"
    by blast+
  with d f show ?thesis by simp
qed

text \<open>
  C10, as claimed: each requested category is in exactly one of the two result lists. A
  category requested twice can be in both: the metadata of \<^verbatim>\<open>Gift_Cards\<close> cannot be
  saved, so the first turn fails after the folder was made, and the second turn finds
  both folders and skips.
\<close>

theorem duplicate_category_in_both_lists:
  "snd (run_categories test_env [''out''] [''work'', ''E:'', ''hf_cache''] False ''gz'' 6
          [''Gift_Cards'', ''Gift_Cards''] (run_world, [], []))
       = ([''Gift_Cards''], [(''Gift_Cards'', OSError [''out'', ''raw_meta_Gift_Cards''])])"
  by (simp add: eval_defs)

text \<open>
  C10, amended. At the end of every run of \<open>download_all_amazon_reviews\<close> that returns,
  the two result lists together hold each entry of the requested list once (as
  multisets, \<open>successful\<close> plus the categories of \<open>failed\<close> are the requested list), so the
  two counts of the summary add up to the number of requested categories; when no
  category is requested twice, each requested category is in exactly one of the lists.
\<close>

theorem every_entry_recorded_once:
  assumes "download_all_amazon_reviews e base_save_path categories_arg compress cf lvl s = (Inr (), s')"
  shows "\<exists>s3 s4 successful failed.
           run_categories e (resolve e base_save_path) (resolve e ''E:/hf_cache'') compress cf lvl
             (requested categories_arg) (s3, [], []) = (s4, successful, failed) \<and>
           s' = print_summary (requested categories_arg) successful failed s4 \<and>
           mset successful + mset (map fst failed) = mset (requested categories_arg) \<and>
           length successful + length failed = length (requested categories_arg) \<and>
           (distinct (requested categories_arg) \<longrightarrow>
              (\<forall>c \<in> set (requested categories_arg).
                 (c \<in> set successful) \<noteq> (c \<in> fst ` set failed)))"
proof -
  from download_all_completed[OF assms] obtain s3 s4 successful failed where
    r: "run_categories e (resolve e base_save_path) (resolve e ''E:/hf_cache'') compress cf lvl
             (requested categories_arg) (s3, [], []) = (s4, successful, failed)"
    and s': "s' = print_summary (requested categories_arg) successful failed s4" by blast
  let ?cs = "requested categories_arg"
  from run_categories_records[OF r]
  have m: "mset successful + mset (map fst failed) = mset ?cs" by simp
  then have "size (mset successful + mset (map fst failed)) = size (mset ?cs)" by simp
  then have l: "length successful + length failed = length ?cs" by simp
  have x: "(c \<in> set successful) \<noteq> (c \<in> fst ` set failed)" if d: "distinct ?cs" and c: "c \<in> set ?cs" for c
  proof -
    have "count (mset ?cs) c = 1" using d c by (simp add: distinct_count_atmost_1)
    then have "count (mset successful) c + count (mset (map fst failed)) c = 1"
      using m by (metis count_union)
    then have "(c \<in># mset successful) \<noteq> (c \<in># mset (map fst failed))"
      by (metis One_nat_def add_is_1 count_eq_zero_iff  zero_neq_one)
    then show ?thesis by simp
  qed
  from r s' m l x show ?thesis by blast
qed

theorem every_entry_recorded_once_witness:
  "fst (download_all_amazon_reviews test_env ''/out'' (Some [''Books'']) False ''gz'' 6 test_world)
     = Inr () \<and>
   distinct (requested (Some [''Books''])) \<and>
   (\<exists>s3 s4 successful failed.
      run_categories test_env (resolve test_env ''/out'') (resolve test_env ''E:/hf_cache'')
        False ''gz'' 6 (requested (Some [''Books''])) (s3, [], []) = (s4, successful, failed) \<and>
      length successful + length failed = 1 \<and>
      ((''Books'' \<in> set successful) \<noteq> (''Books'' \<in> fst ` set failed)))"
proof -
  let ?d = "download_all_amazon_reviews test_env ''/out'' (Some [''Books'']) False ''gz'' 6 test_world"
  have f: "fst ?d = Inr ()"
    by (simp add: top_defs eval_defs split: prod.splits)
  then have "?d = (Inr (), snd ?d)" by (simp add: prod_eq_iff)
  from every_entry_recorded_once[OF this] f show ?thesis
    by (simp add: requested_def) blast
qed

end
